theory Spec2Isabelle
  imports Main "HOL-Library.Word"
begin

unbundle bit_operations_syntax

section \<open>Common types and error codes\<close>

type_synonym u8 = "8 word"
type_synonym u32 = "32 word"
type_synonym u64 = "64 word"

text \<open>The error numbers of \<^verbatim>\<open>error.h\<close>; the kernel returns them negated.\<close>

definition EINVAL :: int where "EINVAL = 1"
definition EBUSY :: int where "EBUSY = 2"
definition EIO :: int where "EIO = 4"
definition ENOENT :: int where "ENOENT = 6"

section \<open>Trap dispatch: exceptions taken from U mode (excp.c)\<close>

definition RISCV_SCAUSE_INSTR_ADDR_MISALIGNED :: u32 where "RISCV_SCAUSE_INSTR_ADDR_MISALIGNED = 0"
definition RISCV_SCAUSE_INSTR_ACCESS_FAULT :: u32 where "RISCV_SCAUSE_INSTR_ACCESS_FAULT = 1"
definition RISCV_SCAUSE_ILLEGAL_INSTR :: u32 where "RISCV_SCAUSE_ILLEGAL_INSTR = 2"
definition RISCV_SCAUSE_BREAKPOINT :: u32 where "RISCV_SCAUSE_BREAKPOINT = 3"
definition RISCV_SCAUSE_LOAD_ADDR_MISALIGNED :: u32 where "RISCV_SCAUSE_LOAD_ADDR_MISALIGNED = 4"
definition RISCV_SCAUSE_LOAD_ACCESS_FAULT :: u32 where "RISCV_SCAUSE_LOAD_ACCESS_FAULT = 5"
definition RISCV_SCAUSE_STORE_ADDR_MISALIGNED :: u32 where "RISCV_SCAUSE_STORE_ADDR_MISALIGNED = 6"
definition RISCV_SCAUSE_STORE_ACCESS_FAULT :: u32 where "RISCV_SCAUSE_STORE_ACCESS_FAULT = 7"
definition RISCV_SCAUSE_ECALL_FROM_UMODE :: u32 where "RISCV_SCAUSE_ECALL_FROM_UMODE = 8"
definition RISCV_SCAUSE_ECALL_FROM_SMODE :: u32 where "RISCV_SCAUSE_ECALL_FROM_SMODE = 9"
definition RISCV_SCAUSE_INSTR_PAGE_FAULT :: u32 where "RISCV_SCAUSE_INSTR_PAGE_FAULT = 12"
definition RISCV_SCAUSE_LOAD_PAGE_FAULT :: u32 where "RISCV_SCAUSE_LOAD_PAGE_FAULT = 13"
definition RISCV_SCAUSE_STORE_PAGE_FAULT :: u32 where "RISCV_SCAUSE_STORE_PAGE_FAULT = 15"

text \<open>The part of \<^verbatim>\<open>struct trap_frame\<close> that the exception handler reads.\<close>

record trap_frame =
  a0 :: u64
  a7 :: u64
  sstatus :: u64
  sepc :: u64

text \<open>
  \<^verbatim>\<open>excp_names[]\<close>: a designated-initialiser array whose largest index is 15, so it has
  16 slots; the slots 10, 11 and 14 are not initialised and hold NULL.
\<close>

definition excp_names :: "u32 \<Rightarrow> string option" where
  "excp_names cause =
     (if cause = RISCV_SCAUSE_INSTR_ADDR_MISALIGNED then Some ''Misaligned instruction address''
      else if cause = RISCV_SCAUSE_INSTR_ACCESS_FAULT then Some ''Instruction access fault''
      else if cause = RISCV_SCAUSE_ILLEGAL_INSTR then Some ''Illegal instruction''
      else if cause = RISCV_SCAUSE_BREAKPOINT then Some ''Breakpoint''
      else if cause = RISCV_SCAUSE_LOAD_ADDR_MISALIGNED then Some ''Misaligned load address''
      else if cause = RISCV_SCAUSE_LOAD_ACCESS_FAULT then Some ''Load access fault''
      else if cause = RISCV_SCAUSE_STORE_ADDR_MISALIGNED then Some ''Misaligned store address''
      else if cause = RISCV_SCAUSE_STORE_ACCESS_FAULT then Some ''Store access fault''
      else if cause = RISCV_SCAUSE_ECALL_FROM_UMODE then Some ''Environment call from U mode''
      else if cause = RISCV_SCAUSE_ECALL_FROM_SMODE then Some ''Environment call from S mode''
      else if cause = RISCV_SCAUSE_INSTR_PAGE_FAULT then Some ''Instruction page fault''
      else if cause = RISCV_SCAUSE_LOAD_PAGE_FAULT then Some ''Load page fault''
      else if cause = RISCV_SCAUSE_STORE_PAGE_FAULT then Some ''Store page fault''
      else None)"

definition excp_names_count :: u32 where "excp_names_count = 16"

text \<open>
  The line that \<^verbatim>\<open>handle_umode_exception\<close> formats with \<^verbatim>\<open>snprintf\<close> before it
  calls \<^verbatim>\<open>process_exit\<close>: the name or the number of the cause, the faulting pc and,
  for address faults, the faulting address.
\<close>

datatype excp_message =
  Named_Excp string u64 "u64 option"
| Numbered_Excp u32 u64 "u64 option"

text \<open>
  What one call of \<^verbatim>\<open>handle_umode_exception\<close> ends in: the syscall handler has run and
  the function returned; the function returned without doing anything (the trap return then
  restores the frame with \<^verbatim>\<open>sepc\<close> unchanged, so the user instruction runs again); or the
  message was logged and \<^verbatim>\<open>process_exit\<close> was called.
\<close>

datatype umode_outcome =
  Syscall_Done
| Returned_To_User
| Logged_And_Exited excp_message

text \<open>\<^verbatim>\<open>handle_umode_page_fault\<close> (memory.c) ignores both arguments and returns 0.\<close>

definition handle_umode_page_fault :: "trap_frame \<Rightarrow> u64 \<Rightarrow> int" where
  "handle_umode_page_fault tfr vma = 0"

definition handle_umode_exception :: "u32 \<Rightarrow> trap_frame \<Rightarrow> u64 \<Rightarrow> umode_outcome" where
  "handle_umode_exception cause tfr bad_vaddr =
     (if cause = RISCV_SCAUSE_ECALL_FROM_UMODE then Syscall_Done
      else
        let x = (cause = RISCV_SCAUSE_INSTR_PAGE_FAULT \<or> cause = RISCV_SCAUSE_LOAD_PAGE_FAULT
                 \<or> cause = RISCV_SCAUSE_STORE_PAGE_FAULT) in
        if x \<and> handle_umode_page_fault tfr bad_vaddr = 0 then Returned_To_User
        else
          let name = (if cause < excp_names_count then excp_names cause else None);
              addy = (x \<or> cause = RISCV_SCAUSE_LOAD_ADDR_MISALIGNED
                        \<or> cause = RISCV_SCAUSE_STORE_ADDR_MISALIGNED
                        \<or> cause = RISCV_SCAUSE_INSTR_ADDR_MISALIGNED
                        \<or> cause = RISCV_SCAUSE_LOAD_ACCESS_FAULT
                        \<or> cause = RISCV_SCAUSE_STORE_ACCESS_FAULT
                        \<or> cause = RISCV_SCAUSE_INSTR_ACCESS_FAULT);
              va = (if addy then Some bad_vaddr else None)
          in case name of
               Some n \<Rightarrow> Logged_And_Exited (Named_Excp n (sepc tfr) va)
             | None \<Rightarrow> Logged_And_Exited (Numbered_Excp cause (sepc tfr) va))"

section \<open>Physical page allocator (memory.c)\<close>

definition PAGE_ORDER :: nat where "PAGE_ORDER = 12"

text \<open>
  A free chunk is a header \<^verbatim>\<open>(next, pagecnt)\<close> stored at the first byte of the region it
  describes, so the address of the header is the address of the region. The singly linked
  \<^verbatim>\<open>free_chunk_list\<close> is the list of its headers in link order.
\<close>

record page_chunk =
  chunk_addr :: u64
  pagecnt :: u64

datatype halt = Panic string | Assert_Failed string

text \<open>
  The search loop of \<^verbatim>\<open>alloc_phys_pages\<close>: \<open>best\<close> is the position and header of the
  best chunk seen so far; a later chunk replaces it only when it is strictly smaller.
\<close>

fun scan_best :: "u64 \<Rightarrow> page_chunk list \<Rightarrow> nat \<Rightarrow> (nat \<times> page_chunk) option
                  \<Rightarrow> (nat \<times> page_chunk) option" where
  "scan_best cnt [] i best = best"
| "scan_best cnt (c # cs) i best =
     scan_best cnt cs (Suc i)
       (if cnt \<le> pagecnt c \<and>
           (case best of None \<Rightarrow> True | Some (j, b) \<Rightarrow> pagecnt c < pagecnt b)
        then Some (i, c) else best)"

definition alloc_phys_pages :: "u32 \<Rightarrow> page_chunk list \<Rightarrow> halt + (u64 \<times> page_chunk list)" where
  "alloc_phys_pages cnt free_chunk_list =
     (if cnt = 0 then Inr (0, free_chunk_list)
      else if free_chunk_list = [] then
        Inl (Panic ''alloc_phys_pages: no free chunks available -> free_chunk_list ==  NULL'')
      else
        case scan_best (ucast cnt) free_chunk_list 0 None of
          None \<Rightarrow> Inl (Panic ''alloc_phys_pages: not enough pages for cnt'')
        | Some (i, best) \<Rightarrow>
            let start = chunk_addr best;
                chunk_bytes = push_bit PAGE_ORDER (pagecnt best);
                alloc_bytes = push_bit PAGE_ORDER (ucast cnt :: u64)
            in if \<not> alloc_bytes \<le> chunk_bytes then
                 Inl (Assert_Failed ''chunk_bytes >= alloc_bytes'')
               else if pagecnt best = ucast cnt then
                 Inr (start, take i free_chunk_list @ drop (Suc i) free_chunk_list)
               else
                 Inr (start + (chunk_bytes - alloc_bytes),
                      free_chunk_list[i := best\<lparr>pagecnt := pagecnt best - ucast cnt\<rparr>]))"

text \<open>
  The smallest-fit choice in the words of the specification: position \<open>i\<close> holds a chunk of
  at least \<open>n\<close> pages, no fitting chunk is smaller, and every fitting chunk before it is
  strictly larger (of several smallest chunks the first in list order is taken).
\<close>

definition smallest_fit :: "u64 \<Rightarrow> page_chunk list \<Rightarrow> nat \<Rightarrow> bool" where
  "smallest_fit n fl i \<longleftrightarrow>
     i < length fl \<and> n \<le> pagecnt (fl ! i) \<and>
     (\<forall>j < length fl. n \<le> pagecnt (fl ! j) \<longrightarrow> pagecnt (fl ! i) \<le> pagecnt (fl ! j)) \<and>
     (\<forall>j < i. n \<le> pagecnt (fl ! j) \<longrightarrow> pagecnt (fl ! i) < pagecnt (fl ! j))"

text \<open>
  While the loop runs over the list, \<open>best\<close> is the smallest fit of the chunks already
  visited, or \<open>None\<close> when none of them fits.
\<close>

definition best_inv :: "u64 \<Rightarrow> page_chunk list \<Rightarrow> (nat \<times> page_chunk) option \<Rightarrow> bool" where
  "best_inv n pre best \<longleftrightarrow>
     (case best of None \<Rightarrow> \<forall>j < length pre. \<not> n \<le> pagecnt (pre ! j)
      | Some (j, b) \<Rightarrow> smallest_fit n pre j \<and> b = pre ! j)"

section \<open>Block cache (cache.c)\<close>

definition CACHE_BLKSZ :: u64 where "CACHE_BLKSZ = 512"

text \<open>
  One slot of the cache. Every slot owns one 512-byte buffer allocated at creation and never
  reallocated, so a block pointer handed to a caller is identified with the index of its
  slot; \<open>data\<close> is the content of that buffer.
\<close>

record cache_entry =
  block_n :: u32
  data :: "u8 list"
  dirty :: bool
  valid :: bool
  access_time :: u32
  in_use :: bool
  owner_tid :: int
  waiters :: "32 word"

text \<open>
  The backing device behind \<^verbatim>\<open>storage_fetch\<close> and \<^verbatim>\<open>storage_store\<close> (a ramdisk or a
  VirtIO block device): for a device state, a byte position and a buffer, a fetch yields the
  returned count or negative error, the new device state and the new buffer content; a store
  yields the returned count or negative error and the new device state.
\<close>

record 's storage_intf =
  storage_fetch :: "'s \<Rightarrow> u64 \<Rightarrow> u8 list \<Rightarrow> int \<times> 's \<times> u8 list"
  storage_store :: "'s \<Rightarrow> u64 \<Rightarrow> u8 list \<Rightarrow> int \<times> 's"

text \<open>
  \<^verbatim>\<open>struct cache\<close>: the 64 slots are the values of \<open>entries\<close> at the indices 0 to 63.
  The mutex and the condition variable only serialise the callers and are left out.
\<close>

record 's cache =
  stor :: 's
  entries :: "nat \<Rightarrow> cache_entry"
  timer :: u32
  last_used :: int

definition CACHE_ENTRIES :: nat where "CACHE_ENTRIES = 64"

text \<open>\<^verbatim>\<open>cache_evict_entry\<close>: the first loop returns at the first free slot; the second keeps
  the running minimum \<open>(min, ret_index)\<close>.\<close>

definition lru_step :: "(nat \<Rightarrow> cache_entry) \<Rightarrow> nat \<Rightarrow> u32 \<times> int \<Rightarrow> u32 \<times> int" where
  "lru_step es i acc =
     (case acc of (mn, ret_index) \<Rightarrow>
        if valid (es i) \<and> \<not> in_use (es i) then
          (if ret_index = -1 \<or> access_time (es i) < mn then (access_time (es i), int i)
           else (mn, ret_index))
        else (mn, ret_index))"

definition cache_evict_entry :: "(nat \<Rightarrow> cache_entry) \<Rightarrow> int" where
  "cache_evict_entry es =
     (case find (\<lambda>i. \<not> valid (es i) \<and> \<not> in_use (es i)) [0..<CACHE_ENTRIES] of
        Some i \<Rightarrow> int i
      | None \<Rightarrow> snd (fold (lru_step es) [0..<CACHE_ENTRIES] (NOT 0, -1)))"

text \<open>
  The first step of \<^verbatim>\<open>cache_get_block\<close> under the mutex: the block handed out by the
  previous call is unpinned when the caller still owns it.
\<close>

definition unpin_last :: "'s cache \<Rightarrow> int \<Rightarrow> 's cache" where
  "unpin_last c tid =
     (if 0 \<le> last_used c \<and> owner_tid (entries c (nat (last_used c))) = tid then
        c\<lparr>entries := (entries c)(nat (last_used c) :=
               (entries c (nat (last_used c)))\<lparr>in_use := False, owner_tid := -1\<rparr>),
          last_used := -1\<rparr>
      else c)"

text \<open>
  The wait loop of the hit path. Between \<^verbatim>\<open>lock_release\<close> and \<^verbatim>\<open>lock_acquire\<close> other
  threads run; this model has the calling thread only, so a slot pinned by another thread
  stays pinned and the loop does not end: the result is \<open>None\<close>.
\<close>

partial_function (option) wait_unpinned :: "'s cache \<Rightarrow> nat \<Rightarrow> int \<Rightarrow> 's cache option" where
  "wait_unpinned c i tid =
     (if in_use (entries c i) \<and> owner_tid (entries c i) \<noteq> tid then
        wait_unpinned
          (c\<lparr>entries := (entries c)(i := (entries c i)\<lparr>waiters := waiters (entries c i) + 1 - 1\<rparr>)\<rparr>)
          i tid
      else Some c)"

definition pin_entry :: "'s cache \<Rightarrow> nat \<Rightarrow> int \<Rightarrow> 's cache" where
  "pin_entry c i tid =
     c\<lparr>entries := (entries c)(i :=
          (entries c i)\<lparr>in_use := True, owner_tid := tid, access_time := timer c + 1\<rparr>),
       timer := timer c + 1,
       last_used := int i\<rparr>"

text \<open>
  \<^verbatim>\<open>cache_get_block\<close> for the thread \<open>tid\<close>. The result is \<open>None\<close> when the call does not
  return, otherwise the returned code, the cache afterwards and the block pointer stored
  through \<^verbatim>\<open>pptr\<close> (the slot index) when the code is 0.
\<close>

definition cache_get_block ::
  "'s storage_intf \<Rightarrow> 's cache \<Rightarrow> int \<Rightarrow> u64 \<Rightarrow> (int \<times> 's cache \<times> nat option) option" where
  "cache_get_block dev c tid pos =
     (if pos mod CACHE_BLKSZ \<noteq> 0 then Some (- EINVAL, c, None)
      else
        let position = pos div CACHE_BLKSZ;
            c1 = unpin_last c tid
        in case find (\<lambda>i. block_n (entries c1 i) = ucast position \<and> valid (entries c1 i))
                  [0..<CACHE_ENTRIES] of
             Some i \<Rightarrow>
               (case wait_unpinned c1 i tid of
                  None \<Rightarrow> None
                | Some c2 \<Rightarrow> Some (0, pin_entry c2 i tid, Some i))
           | None \<Rightarrow>
               let index = cache_evict_entry (entries c1) in
               if index < 0 then Some (- EBUSY, c1, None)
               else
                 let v = nat index;
                     wb = (if valid (entries c1 v) \<and> dirty (entries c1 v) then
                             storage_store dev (stor c1)
                               (ucast (block_n (entries c1 v)) * CACHE_BLKSZ)
                               (data (entries c1 v))
                           else (512, stor c1))
                 in if fst wb < 0 then Some (fst wb, c1\<lparr>stor := snd wb\<rparr>, None)
                    else if fst wb \<noteq> 512 then Some (- EIO, c1\<lparr>stor := snd wb\<rparr>, None)
                    else
                      let c2 = (if valid (entries c1 v) \<and> dirty (entries c1 v) then
                                  c1\<lparr>stor := snd wb,
                                     entries := (entries c1)(v := (entries c1 v)\<lparr>dirty := False\<rparr>)\<rparr>
                                else c1);
                          rd = storage_fetch dev (stor c2) pos (data (entries c2 v));
                          c3 = c2\<lparr>stor := fst (snd rd),
                                   entries := (entries c2)(v :=
                                     (entries c2 v)\<lparr>data := snd (snd rd)\<rparr>)\<rparr>
                      in if fst rd < 0 then Some (fst rd, c3, None)
                         else if fst rd \<noteq> 512 then Some (- EIO, c3, None)
                         else
                           Some (0,
                             pin_entry
                               (c3\<lparr>entries := (entries c3)(v :=
                                   (entries c3 v)\<lparr>block_n := ucast position, valid := True,
                                                   dirty := False\<rparr>)\<rparr>)
                               v tid,
                             Some v))"

text \<open>
  \<^verbatim>\<open>cache_release_block\<close>: the first valid slot whose buffer is \<open>pblk\<close>; a NULL pointer and
  a pointer that matches no valid slot are ignored.
\<close>

definition cache_release_block :: "'s cache \<Rightarrow> nat option \<Rightarrow> int \<Rightarrow> 's cache" where
  "cache_release_block c pblk dirty_arg =
     (case pblk of
        None \<Rightarrow> c
      | Some p \<Rightarrow>
          (case find (\<lambda>i. valid (entries c i) \<and> i = p) [0..<CACHE_ENTRIES] of
             None \<Rightarrow> c
           | Some i \<Rightarrow>
               c\<lparr>entries := (entries c)(i :=
                    (entries c i)\<lparr>dirty := (if dirty_arg \<noteq> 0 then True else dirty (entries c i)),
                                   in_use := False, owner_tid := -1\<rparr>)\<rparr>))"

text \<open>
  The victim in the words of the specification: the first slot in index order that is
  neither valid nor pinned; when there is none, the valid unpinned slot with the smallest
  \<open>access_time\<close> (the first of them in index order when several share it).
\<close>

definition free_slot :: "(nat \<Rightarrow> cache_entry) \<Rightarrow> nat \<Rightarrow> bool" where
  "free_slot es i \<longleftrightarrow> i < CACHE_ENTRIES \<and> \<not> valid (es i) \<and> \<not> in_use (es i)"

definition evictable :: "(nat \<Rightarrow> cache_entry) \<Rightarrow> nat \<Rightarrow> bool" where
  "evictable es j \<longleftrightarrow> valid (es j) \<and> \<not> in_use (es j)"

definition lru_slot :: "(nat \<Rightarrow> cache_entry) \<Rightarrow> nat \<Rightarrow> bool" where
  "lru_slot es i \<longleftrightarrow>
     i < CACHE_ENTRIES \<and> evictable es i \<and>
     (\<forall>j \<in> {0..<CACHE_ENTRIES}. evictable es j \<longrightarrow> access_time (es i) \<le> access_time (es j)) \<and>
     (\<forall>j \<in> {0..<i}. evictable es j \<longrightarrow> access_time (es i) < access_time (es j))"

definition victim_slot :: "(nat \<Rightarrow> cache_entry) \<Rightarrow> nat \<Rightarrow> bool" where
  "victim_slot es i \<longleftrightarrow>
     (free_slot es i \<and> (\<forall>j \<in> {0..<i}. \<not> free_slot es j)) \<or>
     ((\<forall>j \<in> {0..<CACHE_ENTRIES}. \<not> free_slot es j) \<and> lru_slot es i)"

definition all_pinned :: "(nat \<Rightarrow> cache_entry) \<Rightarrow> bool" where
  "all_pinned es \<longleftrightarrow> (\<forall>i \<in> {0..<CACHE_ENTRIES}. in_use (es i))"

definition cache_miss :: "(nat \<Rightarrow> cache_entry) \<Rightarrow> u64 \<Rightarrow> bool" where
  "cache_miss es pos \<longleftrightarrow>
     pos mod CACHE_BLKSZ = 0 \<and>
     (\<forall>i \<in> {0..<CACHE_ENTRIES}. \<not> (valid (es i) \<and> block_n (es i) = ucast (pos div CACHE_BLKSZ)))"

text \<open>
  The two transfers of the miss path for the victim \<open>v\<close> of the cache \<open>c\<close>: the write-back,
  which takes place when the victim is valid and dirty, and the fetch of the requested block
  into the victim's buffer from the device as the write-back left it. Each yields the count
  or error that \<^verbatim>\<open>storage_store\<close> or \<^verbatim>\<open>storage_fetch\<close> returns; 512 is a whole block.
\<close>

definition victim_writeback :: "'s storage_intf \<Rightarrow> 's cache \<Rightarrow> nat \<Rightarrow> int \<times> 's" where
  "victim_writeback dev c v =
     (if valid (entries c v) \<and> dirty (entries c v) then
        storage_store dev (stor c) (ucast (block_n (entries c v)) * CACHE_BLKSZ) (data (entries c v))
      else (512, stor c))"

definition victim_fetch :: "'s storage_intf \<Rightarrow> 's cache \<Rightarrow> nat \<Rightarrow> u64 \<Rightarrow> int \<times> 's \<times> u8 list" where
  "victim_fetch dev c v pos =
     storage_fetch dev (snd (victim_writeback dev c v)) pos (data (entries c v))"

text \<open>
  The cache that a served miss is expected to leave behind: slot \<open>v\<close> holds the fetched
  bytes under the requested block number, valid, clean, stamped with the advanced clock and
  pinned by the caller; \<^verbatim>\<open>last_used\<close> names it; every other slot is as in \<open>c\<close>.
\<close>

definition miss_served :: "'s storage_intf \<Rightarrow> 's cache \<Rightarrow> nat \<Rightarrow> int \<Rightarrow> u64 \<Rightarrow> 's cache" where
  "miss_served dev c v tid pos =
     c\<lparr>stor := fst (snd (victim_fetch dev c v pos)),
       entries := (entries c)(v :=
         (entries c v)\<lparr>data := snd (snd (victim_fetch dev c v pos)),
                        block_n := ucast (pos div CACHE_BLKSZ), valid := True, dirty := False,
                        in_use := True, owner_tid := tid, access_time := timer c + 1\<rparr>),
       timer := timer c + 1,
       last_used := int v\<rparr>"

text \<open>The running minimum of the second loop after the slots below \<open>n\<close>.\<close>

definition lru_upto :: "(nat \<Rightarrow> cache_entry) \<Rightarrow> nat \<Rightarrow> u32 \<times> int \<Rightarrow> bool" where
  "lru_upto es n acc \<longleftrightarrow>
     ((\<forall>j < n. \<not> evictable es j) \<longrightarrow> snd acc = -1) \<and>
     ((\<exists>j < n. evictable es j) \<longrightarrow>
        (\<exists>i < n. snd acc = int i \<and> fst acc = access_time (es i) \<and> evictable es i \<and>
           (\<forall>j < n. evictable es j \<longrightarrow> access_time (es i) \<le> access_time (es j)) \<and>
           (\<forall>j < i. evictable es j \<longrightarrow> access_time (es i) < access_time (es j))))"

text \<open>
  \<^verbatim>\<open>create_cache\<close> leaves every slot invalid, clean, unpinned and without owner, the
  clock at 0 and \<^verbatim>\<open>last_used\<close> at -1 (\<^verbatim>\<open>kmalloc\<close> does not clear the buffers; the
  model takes them zeroed).
\<close>

definition fresh_entry :: cache_entry where
  "fresh_entry = \<lparr>block_n = 0, data = replicate 512 0, dirty = False, valid = False,
                   access_time = 0, in_use = False, owner_tid = -1, waiters = 0\<rparr>"

definition create_cache :: "'s \<Rightarrow> 's cache" where
  "create_cache disk = \<lparr>stor = disk, entries = (\<lambda>i. fresh_entry), timer = 0, last_used = -1\<rparr>"

text \<open>
  Example states: a ramdisk-like device that always transfers whole blocks, and a cache
  whose 64 slots hold the blocks 1 to 64, each pinned by thread 7 (threads that call
  \<^verbatim>\<open>cache_get_block\<close> in turn without releasing leave such pins behind, because only the
  slot named by \<^verbatim>\<open>last_used\<close> is unpinned implicitly).
\<close>

definition ram_dev :: "(u64 \<Rightarrow> u8 list) storage_intf" where
  "ram_dev = \<lparr>storage_fetch = (\<lambda>s pos buf. (512, s, s pos)),
              storage_store = (\<lambda>s pos buf. (512, s(pos := buf)))\<rparr>"

definition zero_disk :: "u64 \<Rightarrow> u8 list" where
  "zero_disk = (\<lambda>pos. replicate 512 0)"

definition pinned_entry :: "nat \<Rightarrow> cache_entry" where
  "pinned_entry i = \<lparr>block_n = of_nat i + 1, data = replicate 512 0, dirty = False, valid = True,
                      access_time = of_nat i + 1, in_use = True, owner_tid = 7, waiters = 0\<rparr>"

definition pinned_cache :: "(u64 \<Rightarrow> u8 list) cache" where
  "pinned_cache = \<lparr>stor = zero_disk, entries = pinned_entry, timer = 64, last_used = 63\<rparr>"

text \<open>The same cache after thread 7 has released the block in slot 5.\<close>

definition one_unpinned_cache :: "(u64 \<Rightarrow> u8 list) cache" where
  "one_unpinned_cache =
     pinned_cache\<lparr>entries := pinned_entry(5 := (pinned_entry 5)\<lparr>in_use := False, owner_tid := -1\<rparr>)\<rparr>"

text \<open>The pinned cache after thread 7 has released the blocks in the slots 5 and 9, where
  the block in slot 9 was last used at time 2, before the block in slot 5.\<close>

definition aged_cache :: "(u64 \<Rightarrow> u8 list) cache" where
  "aged_cache =
     pinned_cache\<lparr>entries := pinned_entry
        (5 := (pinned_entry 5)\<lparr>in_use := False, owner_tid := -1\<rparr>,
         9 := (pinned_entry 9)\<lparr>in_use := False, owner_tid := -1, access_time := 2\<rparr>)\<rparr>"

text \<open>The pinned cache after thread 7, which holds slot 63 as its last block, has asked for
  block 0.\<close>

definition reloaded_cache :: "(u64 \<Rightarrow> u8 list) cache" where
  "reloaded_cache =
     \<lparr>stor = zero_disk,
      entries = pinned_entry(63 := (pinned_entry 63)\<lparr>block_n := 0, access_time := 65\<rparr>),
      timer = 65, last_used = 63\<rparr>"

section \<open>Recursive locks (thread.c)\<close>

text \<open>
  Locks and threads are named by natural numbers standing for their addresses; a NULL pointer
  is \<open>None\<close>. \<^verbatim>\<open>struct lock\<close> is declared in thread.h, which is not part of the sources
  at hand: the functions use its fields \<^verbatim>\<open>owner\<close>, \<^verbatim>\<open>cnt\<close>, \<^verbatim>\<open>next\<close> and
  \<^verbatim>\<open>release\<close>, and the width \<open>'w\<close> of the unsigned integer \<^verbatim>\<open>cnt\<close> is a parameter of the
  functions below.
  The store holds the lock fields and, for every thread, the head \<^verbatim>\<open>lock_list\<close> of the
  list of locks it holds, linked through \<^verbatim>\<open>next\<close>.
\<close>

record 'c lock_store =
  lk_owner :: "nat \<Rightarrow> nat option"
  lk_cnt :: "nat \<Rightarrow> 'c"
  lk_next :: "nat \<Rightarrow> nat option"
  thr_lock_list :: "nat \<Rightarrow> nat option"

text \<open>\<^verbatim>\<open>lock_init\<close>: \<^verbatim>\<open>memset\<close> clears every field of the lock.\<close>

definition lock_init :: "nat \<Rightarrow> 'w::len word lock_store \<Rightarrow> 'w word lock_store" where
  "lock_init lock s =
     s\<lparr>lk_owner := (lk_owner s)(lock := None),
       lk_cnt := (lk_cnt s)(lock := 0),
       lk_next := (lk_next s)(lock := None)\<rparr>"

text \<open>
  \<^verbatim>\<open>while (lock->owner != NULL) condition_wait(&lock->release);\<close> The waiting thread is
  resumed by the broadcast of a releasing thread. This model runs one call at a time, so
  nothing changes while the caller waits: a call on a lock held by another thread does not
  return, which is the value \<open>None\<close>.
\<close>

partial_function (option) wait_released :: "'w::len word lock_store \<Rightarrow> nat \<Rightarrow> 'w word lock_store option" where
  "wait_released s lock =
     (if lk_owner s lock \<noteq> None then wait_released s lock else Some s)"

definition lock_acquire :: "nat \<Rightarrow> nat \<Rightarrow> 'w::len word lock_store \<Rightarrow> 'w word lock_store option" where
  "lock_acquire tp lock s =
     (if lk_owner s lock \<noteq> Some tp then
        (case wait_released s lock of
           None \<Rightarrow> None
         | Some s1 \<Rightarrow>
             Some (s1\<lparr>lk_owner := (lk_owner s1)(lock := Some tp),
                      lk_cnt := (lk_cnt s1)(lock := 1),
                      lk_next := (lk_next s1)(lock := thr_lock_list s1 tp),
                      thr_lock_list := (thr_lock_list s1)(tp := Some lock)\<rparr>))
      else Some (s\<lparr>lk_cnt := (lk_cnt s)(lock := lk_cnt s lock + 1)\<rparr>))"

text \<open>
  \<^verbatim>\<open>lock_release_completely\<close> walks the owner's list with a pointer \<^verbatim>\<open>hptr\<close> to a link
  field: the list head of the thread or the \<^verbatim>\<open>next\<close> field of a lock.
\<close>

datatype link = Head nat | Next_Of nat

definition deref :: "'w word lock_store \<Rightarrow> link \<Rightarrow> nat option" where
  "deref s h = (case h of Head t \<Rightarrow> thr_lock_list s t | Next_Of k \<Rightarrow> lk_next s k)"

definition assign :: "'w word lock_store \<Rightarrow> link \<Rightarrow> nat option \<Rightarrow> 'w word lock_store" where
  "assign s h v =
     (case h of Head t \<Rightarrow> s\<lparr>thr_lock_list := (thr_lock_list s)(t := v)\<rparr>
              | Next_Of k \<Rightarrow> s\<lparr>lk_next := (lk_next s)(k := v)\<rparr>)"

partial_function (option) find_link :: "'w word lock_store \<Rightarrow> nat \<Rightarrow> link \<Rightarrow> link option" where
  "find_link s lock hptr =
     (case deref s hptr of
        None \<Rightarrow> Some hptr
      | Some k \<Rightarrow> if k \<noteq> lock then find_link s lock (Next_Of k) else Some hptr)"

definition lock_release_completely ::
  "nat \<Rightarrow> nat \<Rightarrow> 'w::len word lock_store \<Rightarrow> (halt + 'w word lock_store) option" where
  "lock_release_completely tp lock s =
     (case find_link s lock (Head tp) of
        None \<Rightarrow> None
      | Some hptr \<Rightarrow>
          (case deref s hptr of
             None \<Rightarrow> Some (Inl (Assert_Failed ''*hptr != NULL''))
           | Some k \<Rightarrow>
               let s1 = assign s hptr (lk_next s k) in
               Some (Inr (s1\<lparr>lk_owner := (lk_owner s1)(lock := None),
                              lk_next := (lk_next s1)(lock := None)\<rparr>))))"

definition lock_release :: "nat \<Rightarrow> nat \<Rightarrow> 'w::len word lock_store \<Rightarrow> (halt + 'w word lock_store) option" where
  "lock_release tp lock s =
     (if lk_owner s lock \<noteq> Some tp then Some (Inl (Assert_Failed ''lock->owner == TP''))
      else if lk_cnt s lock = 0 then Some (Inl (Assert_Failed ''lock->cnt != 0''))
      else
        let s1 = s\<lparr>lk_cnt := (lk_cnt s)(lock := lk_cnt s lock - 1)\<rparr> in
        if lk_cnt s1 lock = 0 then lock_release_completely tp lock s1
        else Some (Inr s1))"

text \<open>The invariant of the specification for one lock, and for all of them.\<close>

definition lock_ok :: "'w::len word lock_store \<Rightarrow> nat \<Rightarrow> bool" where
  "lock_ok s lock \<longleftrightarrow> (lk_cnt s lock = 0 \<longleftrightarrow> lk_owner s lock = None)"

definition locks_ok :: "'w::len word lock_store \<Rightarrow> bool" where
  "locks_ok s \<longleftrightarrow> (\<forall>lock. lock_ok s lock)"

text \<open>Example stores: no lock held; lock 3 held by thread 1 at the largest 32-bit count.\<close>

definition no_locks :: "32 word lock_store" where
  "no_locks = \<lparr>lk_owner = (\<lambda>l. None), lk_cnt = (\<lambda>l. 0), lk_next = (\<lambda>l. None),
               thr_lock_list = (\<lambda>t. None)\<rparr>"

definition deep_lock :: "32 word lock_store" where
  "deep_lock = \<lparr>lk_owner = (\<lambda>l. if l = 3 then Some 1 else None),
                lk_cnt = (\<lambda>l. if l = 3 then 0xFFFFFFFF else 0),
                lk_next = (\<lambda>l. None),
                thr_lock_list = (\<lambda>t. if t = 1 then Some 3 else None)\<rparr>"

section \<open>Page tables: adjusting the flags of a range (memory.c)\<close>

text \<open>\<^verbatim>\<open>struct pte\<close>, a 64-bit word split into the bit fields \<^verbatim>\<open>flags\<close>, \<^verbatim>\<open>rsw\<close>,
  \<^verbatim>\<open>ppn\<close>, \<^verbatim>\<open>reserved\<close>, \<^verbatim>\<open>pbmt\<close> and \<^verbatim>\<open>n\<close>.\<close>

record pte =
  pte_flags :: u8
  pte_rsw :: "2 word"
  pte_ppn :: "44 word"
  pte_reserved :: "7 word"
  pte_pbmt :: "2 word"
  pte_n :: "1 word"

definition PTE_V :: u8 where "PTE_V = 1"
definition PTE_R :: u8 where "PTE_R = 2"
definition PTE_W :: u8 where "PTE_W = 4"
definition PTE_X :: u8 where "PTE_X = 8"
definition PTE_U :: u8 where "PTE_U = 16"
definition PTE_G :: u8 where "PTE_G = 32"
definition PTE_A :: u8 where "PTE_A = 64"
definition PTE_D :: u8 where "PTE_D = 128"

definition RWXUG :: u8 where "RWXUG = PTE_R OR PTE_W OR PTE_X OR PTE_U OR PTE_G"

definition PTE_VALID :: "pte \<Rightarrow> bool" where
  "PTE_VALID p \<longleftrightarrow> pte_flags p AND PTE_V \<noteq> 0"

definition PTE_GLOBAL :: "pte \<Rightarrow> bool" where
  "PTE_GLOBAL p \<longleftrightarrow> pte_flags p AND PTE_G \<noteq> 0"

definition PTE_LEAF :: "pte \<Rightarrow> bool" where
  "PTE_LEAF p \<longleftrightarrow> pte_flags p AND (PTE_R OR PTE_W OR PTE_X) \<noteq> 0"

text \<open>\<^verbatim>\<open>PT_INDEX(lvl, vpn)\<close>: the 9-bit index of level \<open>lvl\<close>, stored in an
  \<^verbatim>\<open>unsigned int\<close>.\<close>

definition PT_INDEX :: "nat \<Rightarrow> u64 \<Rightarrow> u32" where
  "PT_INDEX lvl vpn = ucast (drop_bit (lvl * 9) (vpn AND push_bit (lvl * 9) 0x1FF))"

definition pageptr :: "u64 \<Rightarrow> u64" where
  "pageptr k = push_bit PAGE_ORDER k"

definition pte_child :: "pte \<Rightarrow> u64" where
  "pte_child entry = pageptr (ucast (pte_ppn entry))"

text \<open>
  The page tables live in physical memory: \<open>m a\<close> is the entry stored at address \<open>a\<close>.
  \<^verbatim>\<open>ptab_fetch\<close> returns the address of an entry, or the NULL pointer 0. Its loop runs from
  \<^verbatim>\<open>ROOT_LEVEL\<close> down to level 0; \<open>ptab_walk lvl\<close> is the loop from level \<open>lvl\<close> on.
\<close>

fun ptab_walk :: "nat \<Rightarrow> (u64 \<Rightarrow> pte) \<Rightarrow> u64 \<Rightarrow> u64 \<Rightarrow> u64" where
  "ptab_walk 0 m curr_pg vpn =
     (let curr_addr = curr_pg + 8 * ucast (PT_INDEX 0 vpn) in
      if \<not> PTE_VALID (m curr_addr) then 0 else curr_addr)"
| "ptab_walk (Suc i) m curr_pg vpn =
     (let curr_addr = curr_pg + 8 * ucast (PT_INDEX (Suc i) vpn) in
      if \<not> PTE_VALID (m curr_addr) then 0
      else if PTE_LEAF (m curr_addr) then curr_addr
      else ptab_walk i m (pte_child (m curr_addr)) vpn)"

definition ROOT_LEVEL :: nat where "ROOT_LEVEL = 2"

definition ptab_fetch :: "(u64 \<Rightarrow> pte) \<Rightarrow> u64 \<Rightarrow> u64 \<Rightarrow> u64" where
  "ptab_fetch m ptab vpn = ptab_walk ROOT_LEVEL m ptab vpn"

text \<open>\<^verbatim>\<open>ptab_adjust\<close>; \<open>rwxug_flags\<close> is a C \<^verbatim>\<open>int\<close>, cast to \<^verbatim>\<open>uint8_t\<close>.\<close>

definition ptab_adjust :: "(u64 \<Rightarrow> pte) \<Rightarrow> u64 \<Rightarrow> u64 \<Rightarrow> u32 \<Rightarrow> (u64 \<Rightarrow> pte)" where
  "ptab_adjust m ptab vpn rwxug_flags =
     (let curr_pte = ptab_fetch m ptab vpn in
      if curr_pte = 0 then m
      else if \<not> PTE_LEAF (m curr_pte) then m
      else
        let old_flags = pte_flags (m curr_pte);
            non_flag_bits = old_flags AND NOT RWXUG
        in m(curr_pte := (m curr_pte)\<lparr>pte_flags := non_flag_bits OR ucast rwxug_flags\<rparr>))"

text \<open>The machine state that \<^verbatim>\<open>set_range_flags\<close> works on: the \<^verbatim>\<open>satp\<close> register, which
  names the active root table, and the memory holding the tables.\<close>

record mspace =
  satp :: u64
  ptmem :: "u64 \<Rightarrow> pte"

definition mtag_to_ptab :: "u64 \<Rightarrow> u64" where
  "mtag_to_ptab mtag = drop_bit 8 (push_bit 20 mtag)"

definition active_space_ptab :: "mspace \<Rightarrow> u64" where
  "active_space_ptab st = mtag_to_ptab (satp st)"

definition wellformed :: "u64 \<Rightarrow> bool" where
  "wellformed vma \<longleftrightarrow> (let bits = signed_drop_bit 38 vma in bits = 0 \<or> bits + 1 = 0)"

definition PAGE_SIZE :: u64 where "PAGE_SIZE = push_bit PAGE_ORDER 1"

definition range_num_pages :: "u64 \<Rightarrow> u64" where
  "range_num_pages sz = drop_bit PAGE_ORDER (sz + PAGE_SIZE - 1)"

definition VPN :: "u64 \<Rightarrow> u64" where
  "VPN vma = vma div PAGE_SIZE"

definition set_range_flags :: "mspace \<Rightarrow> u64 \<Rightarrow> u64 \<Rightarrow> u32 \<Rightarrow> halt + mspace" where
  "set_range_flags st vp sz rwxug_flags =
     (if sz = 0 then Inr st
      else
        let vma = vp in
        if vma AND (PAGE_SIZE - 1) \<noteq> 0 then
          Inl (Assert_Failed ''(vma & ((uintptr_t) PAGE_SIZE -1)) == 0'')
        else if \<not> wellformed vma then Inl (Assert_Failed ''wellformed(vma)'')
        else
          let end_vma = vma + (sz - 1) in
          if \<not> vma \<le> end_vma then Inl (Assert_Failed ''end_vma >= vma'')
          else if \<not> wellformed end_vma then Inl (Assert_Failed ''wellformed(end_vma)'')
          else
            let num_pages = range_num_pages sz;
                starting_vpn = VPN vma;
                root_table = active_space_ptab st
            in Inr (st\<lparr>ptmem :=
                     fold (\<lambda>i m. ptab_adjust m root_table (starting_vpn + of_nat i) rwxug_flags)
                       [0..<unat num_pages] (ptmem st)\<rparr>))"

text \<open>What \<^verbatim>\<open>ptab_adjust\<close> writes over an entry \<open>p\<close> for the mask \<open>f\<close>.\<close>

definition adjusted :: "u8 \<Rightarrow> pte \<Rightarrow> pte" where
  "adjusted f p = p\<lparr>pte_flags := (pte_flags p AND NOT RWXUG) OR f\<rparr>"

text \<open>
  The relation between the tables \<open>m0\<close> before the range is processed and the tables \<open>m\<close>
  at some point of the loop: every entry is still the old one, or it was a valid leaf and
  has been adjusted.
\<close>

definition adjusted_from :: "u8 \<Rightarrow> (u64 \<Rightarrow> pte) \<Rightarrow> (u64 \<Rightarrow> pte) \<Rightarrow> bool" where
  "adjusted_from f m0 m \<longleftrightarrow>
     (\<forall>a. m a = m0 a \<or> (PTE_VALID (m0 a) \<and> PTE_LEAF (m0 a) \<and> m a = adjusted f (m0 a)))"

text \<open>The entry that maps the page of the virtual address \<open>va\<close> in the active space, and
  whether that page has a leaf mapping.\<close>

definition page_entry :: "mspace \<Rightarrow> u64 \<Rightarrow> u64" where
  "page_entry st va = ptab_fetch (ptmem st) (active_space_ptab st) (VPN va)"

definition leaf_mapped :: "mspace \<Rightarrow> u64 \<Rightarrow> bool" where
  "leaf_mapped st va \<longleftrightarrow> page_entry st va \<noteq> 0 \<and> PTE_LEAF (ptmem st (page_entry st va))"

text \<open>
  An example address space: the root table at \<open>0x80010000\<close> whose entry 3 leads over the
  tables at \<open>0x80011000\<close> and \<open>0x80012000\<close> to one 4 KiB leaf for the virtual address
  \<open>0xC0000000\<close>, mapped with \<open>V|R|W|U|G|A|D\<close>.
\<close>

definition no_pte :: pte where
  "no_pte = \<lparr>pte_flags = 0, pte_rsw = 0, pte_ppn = 0, pte_reserved = 0, pte_pbmt = 0, pte_n = 0\<rparr>"

definition example_tables :: "u64 \<Rightarrow> pte" where
  "example_tables =
     (\<lambda>a. no_pte)
       (0x80010018 := no_pte\<lparr>pte_flags := 0x01, pte_ppn := 0x80011\<rparr>,
        0x80011000 := no_pte\<lparr>pte_flags := 0x01, pte_ppn := 0x80012\<rparr>,
        0x80012000 := no_pte\<lparr>pte_flags := 0xF7, pte_ppn := 0x80200\<rparr>)"

definition example_mspace :: mspace where
  "example_mspace = \<lparr>satp = 0x8000000000080010, ptmem = example_tables\<rparr>"

text \<open>The example after the flags of that page have been set to \<open>R|U\<close>.\<close>

definition adjusted_example :: mspace where
  "adjusted_example =
     example_mspace\<lparr>ptmem := example_tables(0x80012000 :=
        (example_tables 0x80012000)\<lparr>pte_flags := 0xD3\<rparr>)\<rparr>"

text \<open>The same address space with the page not yet accessed: its leaf has \<open>V|R|W|U\<close> only.
  And that space after the flags of the page have been set with the mask \<open>R|A|D\<close>.\<close>

definition fresh_tables :: "u64 \<Rightarrow> pte" where
  "fresh_tables = example_tables(0x80012000 := no_pte\<lparr>pte_flags := 0x17, pte_ppn := 0x80200\<rparr>)"

definition fresh_mspace :: mspace where
  "fresh_mspace = \<lparr>satp = 0x8000000000080010, ptmem = fresh_tables\<rparr>"

definition adjusted_fresh :: mspace where
  "adjusted_fresh =
     fresh_mspace\<lparr>ptmem := fresh_tables(0x80012000 :=
        (fresh_tables 0x80012000)\<lparr>pte_flags := 0xC3\<rparr>)\<rparr>"

section \<open>KTFS: on-disk layout and the read path (ktfs.c)\<close>

definition KTFS_BLKSZ :: nat where "KTFS_BLKSZ = 512"
definition KTFS_INOSZ :: nat where "KTFS_INOSZ = 32"
definition KTFS_DENSZ :: nat where "KTFS_DENSZ = 16"
definition KTFS_NUM_DIRECT_DATA_BLOCKS :: nat where "KTFS_NUM_DIRECT_DATA_BLOCKS = 4"
definition KTFS_NUM_INDIRECT_BLOCKS :: nat where "KTFS_NUM_INDIRECT_BLOCKS = 1"
definition KTFS_NUM_DINDIRECT_BLOCKS :: nat where "KTFS_NUM_DINDIRECT_BLOCKS = 2"

text \<open>\<^verbatim>\<open>KTFS_MAX_FILE_SIZE\<close> = 4*512 + 1*128*512 + 2*128*128*512 bytes.\<close>

definition KTFS_MAX_FILE_SIZE :: u64 where
  "KTFS_MAX_FILE_SIZE =
     of_nat (KTFS_NUM_DIRECT_DATA_BLOCKS * KTFS_BLKSZ
             + KTFS_NUM_INDIRECT_BLOCKS * (KTFS_BLKSZ div 4) * KTFS_BLKSZ
             + KTFS_NUM_DINDIRECT_BLOCKS * (KTFS_BLKSZ div 4) * (KTFS_BLKSZ div 4) * KTFS_BLKSZ)"

text \<open>
  KTFS reaches the disk only through \<^verbatim>\<open>cache_get_block\<close> and \<^verbatim>\<open>cache_release_block\<close> of
  its mount's cache. For the file system the cache and the device behind it are represented
  by what these calls show: \<open>bd_error pos\<close> is the code \<^verbatim>\<open>cache_get_block\<close> returns for the
  byte position \<open>pos\<close> (0, or a negative error), and \<open>bd_data pos\<close> are the 512 bytes of the
  block it hands out. Releasing a block as dirty after changing it stores the new bytes.
  The mount lock and the file locks only serialise the callers and are left out.
\<close>

record blockdev =
  bd_data :: "u64 \<Rightarrow> u8 list"
  bd_error :: "u64 \<Rightarrow> int"

definition blk_get :: "blockdev \<Rightarrow> u64 \<Rightarrow> int + u8 list" where
  "blk_get dev pos = (if bd_error dev pos < 0 then Inl (bd_error dev pos) else Inr (bd_data dev pos))"

definition blk_put :: "blockdev \<Rightarrow> u64 \<Rightarrow> u8 list \<Rightarrow> blockdev" where
  "blk_put dev pos bytes = dev\<lparr>bd_data := (bd_data dev)(pos := bytes)\<rparr>"

text \<open>Little-endian fields inside a block.\<close>

definition le16 :: "u8 list \<Rightarrow> nat \<Rightarrow> 16 word" where
  "le16 bs off = ucast (bs ! off) OR push_bit 8 (ucast (bs ! (off + 1)))"

definition le32 :: "u8 list \<Rightarrow> nat \<Rightarrow> u32" where
  "le32 bs off =
     ucast (bs ! off) OR push_bit 8 (ucast (bs ! (off + 1)))
       OR push_bit 16 (ucast (bs ! (off + 2))) OR push_bit 24 (ucast (bs ! (off + 3)))"

record ktfs_superblock =
  block_count :: u32
  inode_bitmap_block_count :: u32
  bitmap_block_count :: u32
  inode_block_count :: u32
  root_directory_inode :: "16 word"

record ktfs_inode =
  i_size :: u32
  i_block :: "u32 list"
  i_indirect :: u32
  i_dindirect :: "u32 list"


definition decode_super :: "u8 list \<Rightarrow> ktfs_superblock" where
  "decode_super bs =
     \<lparr>block_count = le32 bs 0, inode_bitmap_block_count = le32 bs 4,
      bitmap_block_count = le32 bs 8, inode_block_count = le32 bs 12,
      root_directory_inode = le16 bs 16\<rparr>"

definition decode_inode :: "u8 list \<Rightarrow> nat \<Rightarrow> ktfs_inode" where
  "decode_inode bs off =
     \<lparr>i_size = le32 bs off,
      i_block = [le32 bs (off + 4), le32 bs (off + 8), le32 bs (off + 12), le32 bs (off + 16)],
      i_indirect = le32 bs (off + 20),
      i_dindirect = [le32 bs (off + 24), le32 bs (off + 28)]\<rparr>"


definition ktfs_read_super :: "blockdev \<Rightarrow> int + ktfs_superblock" where
  "ktfs_read_super dev =
     (case blk_get dev 0 of Inl rc \<Rightarrow> Inl rc | Inr blk \<Rightarrow> Inr (decode_super blk))"

text \<open>\<^verbatim>\<open>ktfs_compute_layout\<close>; the sums are taken in 32 bits.\<close>

definition inode_bitmap_start :: "ktfs_superblock \<Rightarrow> u32" where
  "inode_bitmap_start sb = 1"

definition block_bitmap_start :: "ktfs_superblock \<Rightarrow> u32" where
  "block_bitmap_start sb = inode_bitmap_start sb + inode_bitmap_block_count sb"

definition inode_table_start :: "ktfs_superblock \<Rightarrow> u32" where
  "inode_table_start sb = block_bitmap_start sb + bitmap_block_count sb"

definition data_start :: "ktfs_superblock \<Rightarrow> u32" where
  "data_start sb = inode_table_start sb + inode_block_count sb"

definition block_pos :: "u32 \<Rightarrow> u64" where
  "block_pos absblk = ucast absblk * 512"

definition ktfs_inode_grab :: "blockdev \<Rightarrow> u32 \<Rightarrow> ktfs_superblock \<Rightarrow> int + ktfs_inode" where
  "ktfs_inode_grab dev inode_num super =
     (let itbl_start = inode_table_start super;
          ino_off = (ucast inode_num :: u64) * 32;
          blk_idx = ino_off div 512;
          blk_byte_off = ucast itbl_start * 512 + blk_idx * 512;
          within = unat (ino_off mod 512)
      in case blk_get dev blk_byte_off of
           Inl rc \<Rightarrow> Inl rc
         | Inr p \<Rightarrow> Inr (decode_inode p within))"



text \<open>An open file (\<^verbatim>\<open>struct ktfs_uio\<close> with its \<^verbatim>\<open>struct ktfs_file\<close>) and a directory
  listing (\<^verbatim>\<open>struct ktfs_listing_uio\<close>).\<close>

record ktfs_uio =
  f_size :: u64
  f_position :: u64
  f_offset :: u64
  f_inode_number :: "16 word"



text \<open>\<^verbatim>\<open>memcpy(buf + at, src + from, width)\<close> and \<^verbatim>\<open>memset(buf + at, 0, width)\<close> on a
  buffer given by its bytes.\<close>

definition copy_into :: "u8 list \<Rightarrow> nat \<Rightarrow> u8 list \<Rightarrow> u8 list" where
  "copy_into buf at bytes = take at buf @ bytes @ drop (at + length bytes) buf"

definition slice :: "u8 list \<Rightarrow> nat \<Rightarrow> nat \<Rightarrow> u8 list" where
  "slice bs from width = take width (drop from bs)"










section \<open>KTFS: allocation, the write path and control operations (ktfs.c)\<close>

definition set_le32 :: "u8 list \<Rightarrow> nat \<Rightarrow> u32 \<Rightarrow> u8 list" where
  "set_le32 bs off v =
     copy_into bs off [ucast v, ucast (drop_bit 8 v), ucast (drop_bit 16 v), ucast (drop_bit 24 v)]"

definition encode_inode :: "ktfs_inode \<Rightarrow> u8 list" where
  "encode_inode ino =
     set_le32 (set_le32 (set_le32 (set_le32 (set_le32 (set_le32 (set_le32 (set_le32
       (replicate 32 0) 0 (i_size ino)) 4 (i_block ino ! 0)) 8 (i_block ino ! 1))
       12 (i_block ino ! 2)) 16 (i_block ino ! 3)) 20 (i_indirect ino))
       24 (i_dindirect ino ! 0)) 28 (i_dindirect ino ! 1)"

text \<open>\<^verbatim>\<open>ktfs_bitmap_indices_fetch\<close>: first block, block count and number of bits of the inode
  bitmap (\<open>kind = 0\<close>) or of the data bitmap (any other \<open>kind\<close>).\<close>

definition ktfs_bitmap_indices_fetch :: "ktfs_superblock \<Rightarrow> int \<Rightarrow> u32 \<times> u32 \<times> u32" where
  "ktfs_bitmap_indices_fetch sb bitmap_id =
     (if bitmap_id = 0 then
        (inode_bitmap_start sb, inode_bitmap_block_count sb, inode_block_count sb * 16)
      else (block_bitmap_start sb, bitmap_block_count sb, block_count sb))"

text \<open>
  \<^verbatim>\<open>ktfs_bitmap_free_bit_detect\<close>. The three nested loops run over the bitmap blocks, the
  bytes of a block and the bits of a byte. A loop body either goes on (\<open>None\<close>) or leaves the
  function with a result (\<open>Some\<close>).
\<close>

fun scan_bits :: "u8 \<Rightarrow> u8 \<Rightarrow> u32 \<Rightarrow> u32 \<Rightarrow> u32 \<Rightarrow> nat list \<Rightarrow> (int + u32) option" where
  "scan_bits cur window_mask byte_base_bit first_allowed total_bits [] = None"
| "scan_bits cur window_mask byte_base_bit first_allowed total_bits (bitp # bitps) =
     (let bit_sel = (push_bit bitp 1 :: u8) in
      if window_mask AND bit_sel = 0 then
        scan_bits cur window_mask byte_base_bit first_allowed total_bits bitps
      else if cur AND bit_sel \<noteq> 0 then
        scan_bits cur window_mask byte_base_bit first_allowed total_bits bitps
      else
        let found = byte_base_bit + of_nat bitp in
        if found < first_allowed then
          scan_bits cur window_mask byte_base_bit first_allowed total_bits bitps
        else if total_bits \<le> found then Some (Inl (- ENOENT))
        else Some (Inr found))"

fun scan_bytes ::
  "u8 list \<Rightarrow> bool \<Rightarrow> nat \<Rightarrow> u32 \<Rightarrow> u32 \<Rightarrow> u32 \<Rightarrow> u32 \<Rightarrow> nat list \<Rightarrow> (int + u32) option" where
  "scan_bytes bytes in_blk0 first_byte bit_in_byte0 base_bit first_allowed total_bits [] = None"
| "scan_bytes bytes in_blk0 first_byte bit_in_byte0 base_bit first_allowed total_bits (by # bys) =
     (let byte_base_bit = base_bit + of_nat by * 8 in
      if total_bits \<le> byte_base_bit then Some (Inl (- ENOENT))
      else
        let window_mask0 =
              (if in_blk0 \<and> by = first_byte
               then (ucast (0xFF AND NOT (push_bit (unat bit_in_byte0) (1 :: u32) - 1)) :: u8)
               else 0xFF);
            remaining_bits = total_bits - byte_base_bit;
            window_mask =
              (if remaining_bits < 8
               then window_mask0 AND (ucast (push_bit (unat remaining_bits) (1 :: u32) - 1) :: u8)
               else window_mask0)
        in if window_mask = 0 then
             scan_bytes bytes in_blk0 first_byte bit_in_byte0 base_bit first_allowed total_bits bys
           else
             case scan_bits (bytes ! by) window_mask byte_base_bit first_allowed total_bits
                    [0..<8] of
               Some r \<Rightarrow> Some r
             | None \<Rightarrow>
                 scan_bytes bytes in_blk0 first_byte bit_in_byte0 base_bit first_allowed
                   total_bits bys)"

fun scan_blocks ::
  "blockdev \<Rightarrow> u32 \<Rightarrow> u32 \<Rightarrow> nat \<Rightarrow> u32 \<Rightarrow> u32 \<Rightarrow> u32 \<Rightarrow> nat list \<Rightarrow> int + u32" where
  "scan_blocks dev bitmap_start_index blk0 byte0 bit_in_byte0 first_allowed total_bits [] =
     Inl (- ENOENT)"
| "scan_blocks dev bitmap_start_index blk0 byte0 bit_in_byte0 first_allowed total_bits (b # bs) =
     (case blk_get dev (block_pos (bitmap_start_index + of_nat b)) of
        Inl ret \<Rightarrow> Inl ret
      | Inr bytes \<Rightarrow>
          let base_bit = (of_nat b :: u32) * 4096;
              first_byte = (if of_nat b = blk0 then byte0 else 0)
          in case scan_bytes bytes (of_nat b = blk0) first_byte bit_in_byte0 base_bit
                    first_allowed total_bits [first_byte..<512] of
               Some r \<Rightarrow> r
             | None \<Rightarrow>
                 scan_blocks dev bitmap_start_index blk0 byte0 bit_in_byte0 first_allowed
                   total_bits bs)"

definition ktfs_bitmap_free_bit_detect :: "blockdev \<Rightarrow> ktfs_superblock \<Rightarrow> int \<Rightarrow> int + u32" where
  "ktfs_bitmap_free_bit_detect dev sb kind =
     (case ktfs_bitmap_indices_fetch sb kind of
        (bitmap_start_index, bitmap_blocks, total_bits) \<Rightarrow>
          let first_allowed = (if kind \<noteq> 0 then data_start sb else 0) in
          if kind \<noteq> 0 \<and> total_bits \<le> first_allowed then Inl (- EINVAL)
          else
            let start_bit = first_allowed;
                blk0 = start_bit div 4096
            in if bitmap_blocks \<le> blk0 then Inl (- ENOENT)
               else
                 let bit_in_blk0 = start_bit mod 4096;
                     byte0 = bit_in_blk0 div 8;
                     bit_in_byte0 = bit_in_blk0 mod 8
                 in scan_blocks dev bitmap_start_index blk0 (unat byte0) bit_in_byte0
                      first_allowed total_bits [unat blk0..<unat bitmap_blocks])"

definition ktfs_bitmap_mark :: "blockdev \<Rightarrow> ktfs_superblock \<Rightarrow> int \<Rightarrow> u32 \<Rightarrow> int \<times> blockdev" where
  "ktfs_bitmap_mark dev superb kind index =
     (case ktfs_bitmap_indices_fetch superb kind of
        (bitmap_start_index, bitmap_count, max_bits) \<Rightarrow>
          if max_bits \<le> index then (- EINVAL, dev)
          else
            let blk_idx = index div 4096;
                bit_off = index mod 4096;
                byte_off = bit_off div 8;
                bit_in_byte = bit_off mod 8
            in if bitmap_count \<le> blk_idx \<or> 512 \<le> byte_off then (- EINVAL, dev)
               else
                 let dev_off = block_pos (bitmap_start_index + blk_idx) in
                 case blk_get dev dev_off of
                   Inl ret \<Rightarrow> (ret, dev)
                 | Inr blk \<Rightarrow>
                     (0, blk_put dev dev_off
                           (blk[unat byte_off :=
                              (blk ! unat byte_off) OR push_bit (unat bit_in_byte) 1])))"

text \<open>
  \<^verbatim>\<open>ktfs_alloc_zero_block\<close>. The result of its \<^verbatim>\<open>cache_get_block\<close> is not tested: when that
  call fails, \<^verbatim>\<open>memset\<close> writes through a NULL pointer and the kernel takes a store fault in
  S mode, which \<^verbatim>\<open>handle_smode_exception\<close> turns into a panic.
\<close>

definition ktfs_alloc_zero_block ::
  "blockdev \<Rightarrow> ktfs_superblock \<Rightarrow> halt + (int \<times> blockdev \<times> u32)" where
  "ktfs_alloc_zero_block dev sb =
     (case ktfs_bitmap_free_bit_detect dev sb 1 of
        Inl ret \<Rightarrow> Inr (ret, dev, 0)
      | Inr calc_abs_no \<Rightarrow>
          (case ktfs_bitmap_mark dev sb 1 calc_abs_no of
             (ret, dev1) \<Rightarrow>
               if ret < 0 then Inr (ret, dev1, 0)
               else
                 case blk_get dev1 (block_pos calc_abs_no) of
                   Inl rc \<Rightarrow> Inl (Panic ''Store page fault in S mode'')
                 | Inr block \<Rightarrow>
                     Inr (0, blk_put dev1 (block_pos calc_abs_no) (replicate 512 0), calc_abs_no)))"

text \<open>
  \<^verbatim>\<open>ktfs_map_block_and_or_allocate\<close> with \<^verbatim>\<open>allocE\<close> set: here a stored index 0 means "not
  allocated". A table block is written through the pointer obtained before the allocation,
  that is, into the bytes the cache holds for it at the time of the write.
\<close>

definition alloc_leaf ::
  "blockdev \<Rightarrow> ktfs_superblock \<Rightarrow> ktfs_inode \<Rightarrow> u32 \<Rightarrow> u32
     \<Rightarrow> halt + (int \<times> blockdev \<times> ktfs_inode \<times> u32)" where
  "alloc_leaf dev sb ino table_abs slot =
     (case blk_get dev (block_pos table_abs) of
        Inl rc \<Rightarrow> Inr (rc, dev, ino, 0)
      | Inr tbl \<Rightarrow>
          let idx = le32 tbl (4 * unat slot) in
          if idx = 0 then
            (case ktfs_alloc_zero_block dev sb of
               Inl h \<Rightarrow> Inl h
             | Inr (rc, dev1, calc_abs_no) \<Rightarrow>
                 if rc < 0 then Inr (rc, dev1, ino, 0)
                 else Inr (0,
                        blk_put dev1 (block_pos table_abs)
                          (set_le32 (bd_data dev1 (block_pos table_abs)) (4 * unat slot)
                             (calc_abs_no - data_start sb)),
                        ino, calc_abs_no))
          else Inr (0, dev, ino, data_start sb + idx))"

text \<open>
  One pass of the loop over the two double-indirect slots. In the first allocation the
  source declares \<^verbatim>\<open>uint32_t calc_abs_no = 0, rc = ktfs_alloc_zero_block(...)\<close>, so that
  \<^verbatim>\<open>rc\<close> is unsigned there and the test \<^verbatim>\<open>rc < 0\<close> never holds.
\<close>

definition alloc_dindirect ::
  "blockdev \<Rightarrow> ktfs_superblock \<Rightarrow> ktfs_inode \<Rightarrow> nat \<Rightarrow> u32
     \<Rightarrow> halt + (int \<times> blockdev \<times> ktfs_inode \<times> u32)" where
  "alloc_dindirect dev sb ino di lbn =
     (case (if i_dindirect ino ! di = 0 then
              (case ktfs_alloc_zero_block dev sb of
                 Inl h \<Rightarrow> Inl h
               | Inr (rc, dev1, calc_abs_no) \<Rightarrow>
                   if (word_of_int rc :: u32) < 0 then Inr (rc, dev1, ino)
                   else Inr (0, dev1,
                          ino\<lparr>i_dindirect := (i_dindirect ino)[di := calc_abs_no - data_start sb]\<rparr>))
            else Inr (0, dev, ino)) of
        Inl h \<Rightarrow> Inl h
      | Inr (rc, dev1, ino1) \<Rightarrow>
          if rc < 0 then Inr (rc, dev1, ino1, 0)
          else
            let i1 = lbn div 128;
                i2 = lbn mod 128;
                double_indirect_absolute_block = data_start sb + i_dindirect ino1 ! di
            in case blk_get dev1 (block_pos double_indirect_absolute_block) of
                 Inl rc1 \<Rightarrow> Inr (rc1, dev1, ino1, 0)
               | Inr lvl1 \<Rightarrow>
                   let indirect_number0 = le32 lvl1 (4 * unat i1) in
                   case (if indirect_number0 = 0 then
                           (case ktfs_alloc_zero_block dev1 sb of
                              Inl h \<Rightarrow> Inl h
                            | Inr (rc2, dev2, calc_abs_no) \<Rightarrow>
                                if rc2 < 0 then Inr (rc2, dev2, 0)
                                else Inr (0,
                                       blk_put dev2 (block_pos double_indirect_absolute_block)
                                         (set_le32 (bd_data dev2 (block_pos double_indirect_absolute_block))
                                            (4 * unat i1) (calc_abs_no - data_start sb)),
                                       calc_abs_no - data_start sb))
                         else Inr (0, dev1, indirect_number0)) of
                     Inl h \<Rightarrow> Inl h
                   | Inr (rc3, dev3, indirect_number) \<Rightarrow>
                       if rc3 < 0 then Inr (rc3, dev3, ino1, 0)
                       else alloc_leaf dev3 sb ino1 (data_start sb + indirect_number) i2)"

definition ktfs_map_block_and_or_allocate ::
  "blockdev \<Rightarrow> ktfs_superblock \<Rightarrow> ktfs_inode \<Rightarrow> u32
     \<Rightarrow> halt + (int \<times> blockdev \<times> ktfs_inode \<times> u32)" where
  "ktfs_map_block_and_or_allocate dev sb ino lbn =
     (if lbn < 4 then
        (let idx = i_block ino ! unat lbn in
         if idx = 0 then
           (case ktfs_alloc_zero_block dev sb of
              Inl h \<Rightarrow> Inl h
            | Inr (rc, dev1, calc_abs_no) \<Rightarrow>
                if rc < 0 then Inr (rc, dev1, ino, 0)
                else Inr (0, dev1,
                       ino\<lparr>i_block := (i_block ino)[unat lbn := calc_abs_no - data_start sb]\<rparr>,
                       calc_abs_no))
         else Inr (0, dev, ino, data_start sb + idx))
      else
        let lbn1 = lbn - 4 in
        if lbn1 < 128 then
          (case (if i_indirect ino = 0 then
                   (case ktfs_alloc_zero_block dev sb of
                      Inl h \<Rightarrow> Inl h
                    | Inr (rc, dev1, calc_abs_no) \<Rightarrow>
                        if rc < 0 then Inr (rc, dev1, ino)
                        else Inr (0, dev1, ino\<lparr>i_indirect := calc_abs_no - data_start sb\<rparr>))
                 else Inr (0, dev, ino)) of
             Inl h \<Rightarrow> Inl h
           | Inr (rc, dev1, ino1) \<Rightarrow>
               if rc < 0 then Inr (rc, dev1, ino1, 0)
               else alloc_leaf dev1 sb ino1 (data_start sb + i_indirect ino1) lbn1)
        else
          let lbn2 = lbn1 - 128;
              width = 128 * 128
          in if lbn2 < width then alloc_dindirect dev sb ino 0 lbn2
             else
               let lbn3 = lbn2 - width in
               if lbn3 < width then alloc_dindirect dev sb ino 1 lbn3
               else Inr (- ENOENT, dev, ino, 0))"

definition ktfs_write_to_ino ::
  "blockdev \<Rightarrow> u32 \<Rightarrow> ktfs_superblock \<Rightarrow> ktfs_inode \<Rightarrow> int \<times> blockdev" where
  "ktfs_write_to_ino dev inode_num superb src =
     (let itbl_start = inode_table_start superb;
          ino_off = (ucast inode_num :: u64) * 32;
          blk_idx = ino_off div 512;
          within = unat (ino_off mod 512);
          blk_byte_off = ucast itbl_start * 512 + blk_idx * 512
      in case blk_get dev blk_byte_off of
           Inl ret \<Rightarrow> (ret, dev)
         | Inr p \<Rightarrow> (0, blk_put dev blk_byte_off (copy_into p within (encode_inode src))))"

text \<open>The loop \<^verbatim>\<open>for (x = first; x < last; x++)\<close> that maps or allocates every block of a
  grown file, over the block numbers \<open>xs\<close>.\<close>

fun grow_loop ::
  "blockdev \<Rightarrow> ktfs_superblock \<Rightarrow> ktfs_inode \<Rightarrow> nat list \<Rightarrow> halt + (int \<times> blockdev \<times> ktfs_inode)" where
  "grow_loop dev sb ino [] = Inr (0, dev, ino)"
| "grow_loop dev sb ino (x # xs) =
     (case ktfs_map_block_and_or_allocate dev sb ino (of_nat x) of
        Inl h \<Rightarrow> Inl h
      | Inr (ret, dev1, ino1, absblk) \<Rightarrow>
          if ret < 0 then Inr (ret, dev1, ino1) else grow_loop dev1 sb ino1 xs)"

text \<open>
  The copy loop of \<^verbatim>\<open>ktfs_store\<close> from file offset \<open>fOffset\<close> up to \<open>write_end\<close>;
  \<open>buf\<close> are the caller's bytes, which start at file offset \<open>pos\<close>.
\<close>

function store_loop ::
  "blockdev \<Rightarrow> ktfs_superblock \<Rightarrow> ktfs_inode \<Rightarrow> u8 list \<Rightarrow> u64 \<Rightarrow> u64 \<Rightarrow> u64
     \<Rightarrow> halt + (int \<times> blockdev \<times> ktfs_inode \<times> u64)" where
  "store_loop dev sb ino buf pos write_end fOffset =
     (if fOffset < write_end then
        let lbn = (ucast (fOffset div 512) :: u32);
            off_in_block = (ucast (fOffset mod 512) :: u32);
            what_remains = write_end - fOffset;
            chunk = (ucast (min what_remains (ucast (512 - off_in_block))) :: u32)
        in case ktfs_map_block_and_or_allocate dev sb ino lbn of
             Inl h \<Rightarrow> Inl h
           | Inr (ret, dev1, ino1, absblk) \<Rightarrow>
               if ret < 0 then Inr (ret, dev1, ino1, fOffset)
               else
                 (case blk_get dev1 (block_pos absblk) of
                    Inl rc \<Rightarrow> Inr (rc, dev1, ino1, fOffset)
                  | Inr blk \<Rightarrow>
                      store_loop
                        (blk_put dev1 (block_pos absblk)
                           (copy_into blk (unat off_in_block)
                              (slice buf (unat (fOffset - pos)) (unat chunk))))
                        sb ino1 buf pos write_end (fOffset + ucast chunk))
      else Inr (0, dev, ino, fOffset))"
  by pat_completeness auto
termination
proof -
  have step: "unat (write_end - (fOffset +
                 ucast (ucast (min (write_end - fOffset) (ucast (512 - (ucast (fOffset mod 512) :: u32)))) :: u32)))
                < unat (write_end - fOffset)"
    if lt: "fOffset < write_end" for write_end fOffset :: u64
  proof -
    let ?d = "write_end - fOffset"
    let ?o = "ucast (fOffset mod 512) :: u32"
    let ?k = "ucast (512 - ?o) :: u64"
    let ?c = "ucast (ucast (min ?d ?k) :: u32) :: u64"
    have d0: "?d \<noteq> 0" using lt by simp
    have ol: "fOffset mod 512 < 512" by (simp add: word_mod_less_divisor)
    then have uo: "unat (fOffset mod 512) < 512" by (simp add: word_less_nat_alt)
    have o32: "unat ?o = unat (fOffset mod 512)"
      using uo by (simp add: unsigned_ucast_eq take_bit_nat_eq_self)
    have k32: "unat (512 - ?o) = 512 - unat (fOffset mod 512)"
      using uo o32 by (simp add: unat_sub word_le_nat_alt)
    have uk: "unat ?k = 512 - unat (fOffset mod 512)"
      using k32 by (simp add: unsigned_ucast_eq take_bit_nat_eq_self)
    have kpos: "0 < unat ?k" "unat ?k \<le> 512" using uk uo by simp_all
    have um: "unat (min ?d ?k) = min (unat ?d) (unat ?k)"
      by (simp add: min_def word_le_nat_alt)
    have mpos: "0 < unat (min ?d ?k)" "unat (min ?d ?k) \<le> 512" "unat (min ?d ?k) \<le> unat ?d"
      using um kpos d0 by (simp_all add: unat_gt_0)
    have uc: "unat ?c = unat (min ?d ?k)"
      using mpos(2) by (simp add: unsigned_ucast_eq unsigned_take_bit_eq take_bit_nat_eq_self)
    have cl: "?c \<le> ?d" using uc mpos(3) by (simp add: word_le_nat_alt)
    have e: "write_end - (fOffset + ?c) = ?d - ?c" by simp
    have "unat (?d - ?c) = unat ?d - unat ?c" using cl by (simp add: unat_sub)
    with uc mpos have "unat (?d - ?c) < unat ?d" by linarith
    then show ?thesis by (simp only: e)
  qed
  show ?thesis
    by (relation "measure (\<lambda>(dev, sb, ino, buf, pos, write_end, fOffset). unat (write_end - fOffset))")
       (simp_all add: step)
qed

text \<open>
  \<^verbatim>\<open>ktfs_store\<close>: the kernel halts, or the call returns a count or error with the file
  handle and the disk as they are then. \<open>buf = None\<close> is a NULL buffer.
\<close>

definition ktfs_store ::
  "blockdev \<Rightarrow> ktfs_uio \<Rightarrow> u8 list option \<Rightarrow> u64 \<Rightarrow> halt + (int \<times> ktfs_uio \<times> blockdev)" where
  "ktfs_store dev kuio buf len =
     (if len = 0 then Inr (0, kuio, dev)
      else case buf of
        None \<Rightarrow> Inr (- EINVAL, kuio, dev)
      | Some b \<Rightarrow>
          (case ktfs_read_super dev of
             Inl ret \<Rightarrow> Inr (ret, kuio, dev)
           | Inr superb \<Rightarrow>
               (case ktfs_inode_grab dev (ucast (f_inode_number kuio)) superb of
                  Inl ret \<Rightarrow> Inr (ret, kuio, dev)
                | Inr inode \<Rightarrow>
                    let pos = f_position kuio;
                        size = (ucast (i_size inode) :: u64)
                    in if KTFS_MAX_FILE_SIZE \<le> pos then Inr (- EINVAL, kuio, dev)
                       else
                         let max_writable = KTFS_MAX_FILE_SIZE - pos;
                             size_of_write = (if max_writable < len then max_writable else len)
                         in if size_of_write = 0 then Inr (0, kuio, dev)
                            else
                              let write_end = pos + size_of_write;
                                  olderBlks = (if size = 0 then 0 else (size + 512 - 1) div 512);
                                  new_blocks = (write_end + 512 - 1) div 512
                              in case (if size < write_end then
                                         grow_loop dev superb inode
                                           [unat (ucast olderBlks :: u32)..<unat (ucast new_blocks :: u32)]
                                       else Inr (0, dev, inode)) of
                                   Inl h \<Rightarrow> Inl h
                                 | Inr (ret, dev1, inode1) \<Rightarrow>
                                     if ret < 0 then Inr (ret, kuio, dev1)
                                     else
                                       (case store_loop dev1 superb inode1 b pos write_end pos of
                                          Inl h \<Rightarrow> Inl h
                                        | Inr (ret2, dev2, inode2, new_end) \<Rightarrow>
                                            if ret2 < 0 then Inr (ret2, kuio, dev2)
                                            else
                                              let inode3 = (if size < new_end
                                                            then inode2\<lparr>i_size := ucast new_end\<rparr>
                                                            else inode2)
                                              in case ktfs_write_to_ino dev2
                                                        (ucast (f_inode_number kuio)) superb inode3 of
                                                   (ret3, dev3) \<Rightarrow>
                                                     if ret3 < 0 then Inr (ret3, kuio, dev3)
                                                     else Inr (uint (new_end - pos),
                                                            kuio\<lparr>f_size := ucast (i_size inode3),
                                                                 f_position := new_end\<rparr>,
                                                            dev3)))))"





section \<open>KTFS: what a file's logical blocks hold\<close>






section \<open>KTFS: an example volume\<close>

text \<open>
  A volume of 64 blocks with one block each for the inode bitmap (block 1), the data bitmap
  (block 2) and the inode table (block 3), so that the data blocks start at block 4. Inode 0
  is the root directory: 16 bytes, one entry, kept in data block 0 (block 4). Inode 1 is the
  file \<open>hello\<close> of 1024 bytes: its first block is data block 1 (block 5, filled with the
  letter A) and the stored index of its second block is 0.
\<close>

definition pad_block :: "u8 list \<Rightarrow> u8 list" where
  "pad_block bs = bs @ replicate (512 - length bs) 0"

definition example_super_block :: "u8 list" where
  "example_super_block = pad_block [64,0,0,0, 1,0,0,0, 1,0,0,0, 1,0,0,0, 0,0]"

definition example_inode_block :: "u8 list" where
  "example_inode_block =
     pad_block ([16,0,0,0] @ replicate 28 0 @ [0,4,0,0, 1,0,0,0] @ replicate 24 0)"

definition example_dir_block :: "u8 list" where
  "example_dir_block = pad_block [1,0, 104,101,108,108,111,0,0,0,0,0,0,0,0,0]"

definition example_disk :: blockdev where
  "example_disk =
     \<lparr>bd_data = (\<lambda>pos. replicate 512 0)
        (0 := example_super_block,
         512 := pad_block [3],
         1024 := pad_block [0x3F],
         1536 := example_inode_block,
         2048 := example_dir_block,
         2560 := replicate 512 0x41),
      bd_error = (\<lambda>pos. 0)\<rparr>"

definition example_super :: ktfs_superblock where
  "example_super =
     \<lparr>block_count = 64, inode_bitmap_block_count = 1, bitmap_block_count = 1,
      inode_block_count = 1, root_directory_inode = 0\<rparr>"


definition hello_inode :: ktfs_inode where
  "hello_inode = \<lparr>i_size = 1024, i_block = [1, 0, 0, 0], i_indirect = 0, i_dindirect = [0, 0]\<rparr>"

text \<open>The file \<open>hello\<close> as \<^verbatim>\<open>ktfs_open\<close> hands it out, and the same handle positioned at
  the largest file size.\<close>

definition hello_uio :: ktfs_uio where
  "hello_uio = \<lparr>f_size = 1024, f_position = 0, f_offset = 0, f_inode_number = 1\<rparr>"

definition hello_uio_at_max :: ktfs_uio where
  "hello_uio_at_max = hello_uio\<lparr>f_position := KTFS_MAX_FILE_SIZE\<rparr>"


subsection \<open>Block cache: victim selection and pinning\<close>

declare wait_unpinned.simps [code]

lemma find_upt_Some:
  "find P [0..<n] = Some i \<longleftrightarrow> i < n \<and> P i \<and> (\<forall>j < i. \<not> P j)"
  by (auto simp: find_Some_iff)


lemma find_upt_None: "find P [0..<n] = None \<longleftrightarrow> (\<forall>i < n. \<not> P i)"
  by (auto simp: find_None_iff)


lemma ball_upt: "(\<forall>j \<in> {0..<n::nat}. P j) \<longleftrightarrow> (\<forall>j < n. P j)"
  by auto


lemma lru_step_eq:
  "lru_step es n (mn, ri) =
     (if evictable es n \<and> (ri = -1 \<or> access_time (es n) < mn) then (access_time (es n), int n)
      else (mn, ri))"
  by (simp add: lru_step_def evictable_def)


lemma lru_upto_step:
  assumes "lru_upto es n acc"
  shows "lru_upto es (Suc n) (lru_step es n acc)"
proof -
  obtain mn ri where acc: "acc = (mn, ri)" by (cases acc)
  show ?thesis
  proof (cases "\<exists>j < n. evictable es j")
    case False
    with assms acc have "ri = -1" by (auto simp: lru_upto_def)
    with False show ?thesis unfolding acc lru_step_eq
      by (auto simp: lru_upto_def less_Suc_eq)
  next
    case True
    with assms acc obtain i where i: "i < n" "ri = int i" "mn = access_time (es i)"
        "evictable es i"
        "\<forall>j < n. evictable es j \<longrightarrow> access_time (es i) \<le> access_time (es j)"
        "\<forall>j < i. evictable es j \<longrightarrow> access_time (es i) < access_time (es j)"
      by (auto simp: lru_upto_def)
    show ?thesis
    proof (cases "evictable es n \<and> access_time (es n) < mn")
      case new: True
      have "lru_upto es (Suc n) (access_time (es n), int n)"
        unfolding lru_upto_def
      proof (intro conjI impI)
        assume "\<forall>j<Suc n. \<not> evictable es j"
        with new show "snd (access_time (es n), int n) = -1" by simp
      next
        show "\<exists>k<Suc n. snd (access_time (es n), int n) = int k \<and>
            fst (access_time (es n), int n) = access_time (es k) \<and> evictable es k \<and>
            (\<forall>j<Suc n. evictable es j \<longrightarrow> access_time (es k) \<le> access_time (es j)) \<and>
            (\<forall>j<k. evictable es j \<longrightarrow> access_time (es k) < access_time (es j))"
        proof (intro exI [of _ n] conjI allI impI)
          fix j assume "j < Suc n" "evictable es j"
          then show "access_time (es n) \<le> access_time (es j)"
            using new i(3,5) by (cases "j = n") (auto simp: less_Suc_eq)
        next
          fix j assume "j < n" "evictable es j"
          then show "access_time (es n) < access_time (es j)"
            using new i(3,5) by (metis le_less_trans not_le)
        qed (use new in simp_all)
      qed
      with new i(2) show ?thesis unfolding acc lru_step_eq by simp
    next
      case old: False
      have "lru_upto es (Suc n) (mn, ri)"
        unfolding lru_upto_def
      proof (intro conjI impI)
        assume "\<forall>j<Suc n. \<not> evictable es j"
        with True show "snd (mn, ri) = -1" by auto
      next
        show "\<exists>k<Suc n. snd (mn, ri) = int k \<and>
            fst (mn, ri) = access_time (es k) \<and> evictable es k \<and>
            (\<forall>j<Suc n. evictable es j \<longrightarrow> access_time (es k) \<le> access_time (es j)) \<and>
            (\<forall>j<k. evictable es j \<longrightarrow> access_time (es k) < access_time (es j))"
        proof (intro exI [of _ i] conjI allI impI)
          fix j assume "j < Suc n" "evictable es j"
          then show "access_time (es i) \<le> access_time (es j)"
            using old i(3,5) by (cases "j = n") (auto simp: less_Suc_eq not_less)
        qed (use i in simp_all)
      qed
      with old i(2) show ?thesis unfolding acc lru_step_eq by auto
    qed
  qed
qed


lemma lru_upto_fold: "lru_upto es n (fold (lru_step es) [0..<n] (NOT 0, -1))"
proof (induction n)
  case 0
  show ?case by (simp add: lru_upto_def)
next
  case (Suc n)
  then show ?case using lru_upto_step [of es n] by simp
qed


lemma evict_free:
  assumes "free_slot es i" "\<forall>j < i. \<not> free_slot es j"
  shows "cache_evict_entry es = int i"
proof -
  have "find (\<lambda>i. \<not> valid (es i) \<and> \<not> in_use (es i)) [0..<CACHE_ENTRIES] = Some i"
    using assms unfolding find_upt_Some free_slot_def by auto
  then show ?thesis by (simp add: cache_evict_entry_def)
qed


lemma lru_slot_unique: "lru_slot es i \<Longrightarrow> lru_slot es k \<Longrightarrow> i = k"
  unfolding lru_slot_def ball_upt by (metis linorder_neqE_nat not_less)

lemma evict_none_free:
  assumes "\<forall>j < CACHE_ENTRIES. \<not> free_slot es j"
  shows "cache_evict_entry es = snd (fold (lru_step es) [0..<CACHE_ENTRIES] (NOT 0, -1))"
proof -
  have "find (\<lambda>i. \<not> valid (es i) \<and> \<not> in_use (es i)) [0..<CACHE_ENTRIES] = None"
    using assms unfolding find_upt_None free_slot_def by auto
  then show ?thesis by (simp add: cache_evict_entry_def)
qed


lemma fold_lru_slot:
  assumes "j < CACHE_ENTRIES" "evictable es j"
  shows "\<exists>k. snd (fold (lru_step es) [0..<CACHE_ENTRIES] (NOT 0, -1)) = int k \<and> lru_slot es k"
proof -
  from assms have "\<exists>j < CACHE_ENTRIES. evictable es j" by blast
  with lru_upto_fold [of es CACHE_ENTRIES] show ?thesis
    unfolding lru_upto_def lru_slot_def ball_upt by blast
qed


lemma evict_lru:
  assumes nf: "\<forall>j < CACHE_ENTRIES. \<not> free_slot es j" and l: "lru_slot es i"
  shows "cache_evict_entry es = int i"
proof -
  from l have "i < CACHE_ENTRIES" "evictable es i" by (auto simp: lru_slot_def)
  from fold_lru_slot [OF this] lru_slot_unique [OF l] evict_none_free [OF nf]
  show ?thesis by auto
qed


lemma evict_all_pinned:
  assumes "all_pinned es"
  shows "cache_evict_entry es = -1"
proof -
  have nf: "\<forall>j < CACHE_ENTRIES. \<not> free_slot es j" using assms by (auto simp: free_slot_def all_pinned_def)
  have "\<forall>j < CACHE_ENTRIES. \<not> evictable es j" using assms by (auto simp: evictable_def all_pinned_def)
  with lru_upto_fold [of es CACHE_ENTRIES] evict_none_free [OF nf] show ?thesis
    by (simp add: lru_upto_def)
qed


lemma victim_exists:
  assumes "\<not> all_pinned es"
  shows "\<exists>i. victim_slot es i"
proof (cases "\<exists>j < CACHE_ENTRIES. free_slot es j")
  case True
  then obtain j where "free_slot es j" by blast
  then have "free_slot es (LEAST j. free_slot es j) \<and> (\<forall>k < (LEAST j. free_slot es j). \<not> free_slot es k)"
    by (metis LeastI not_less_Least)
  then show ?thesis unfolding victim_slot_def ball_upt by blast
next
  case False
  then have nf: "\<forall>j < CACHE_ENTRIES. \<not> free_slot es j" by blast
  from assms obtain j where "j < CACHE_ENTRIES" "\<not> in_use (es j)" by (auto simp: all_pinned_def)
  with nf have "j < CACHE_ENTRIES" "evictable es j" by (auto simp: free_slot_def evictable_def)
  from fold_lru_slot [OF this] nf show ?thesis unfolding victim_slot_def ball_upt by blast
qed


lemma evict_victim: "victim_slot es i \<Longrightarrow> cache_evict_entry es = int i"
  unfolding victim_slot_def ball_upt using evict_free evict_lru by blast


lemma victim_lt: "victim_slot es i \<Longrightarrow> i < CACHE_ENTRIES"
  unfolding victim_slot_def free_slot_def lru_slot_def by blast

lemma miss_find:
  assumes "cache_miss es pos"
  shows "find (\<lambda>i. block_n (es i) = ucast (pos div CACHE_BLKSZ) \<and> valid (es i)) [0..<CACHE_ENTRIES] = None"
  using assms unfolding find_upt_None cache_miss_def ball_upt by auto


lemma get_block_all_pinned:
  assumes miss: "cache_miss (entries (unpin_last c tid)) pos"
    and pinned: "all_pinned (entries (unpin_last c tid))"
  shows "cache_get_block dev c tid pos = Some (- EBUSY, unpin_last c tid, None)"
proof -
  from miss have al: "pos mod CACHE_BLKSZ = 0" by (simp add: cache_miss_def)
  show ?thesis
    unfolding cache_get_block_def
    using al miss_find [OF miss] evict_all_pinned [OF pinned]
    by (simp add: Let_def)
qed


lemma get_block_victim:
  assumes miss: "cache_miss (entries (unpin_last c tid)) pos"
    and v: "victim_slot (entries (unpin_last c tid)) i"
  shows "\<exists>ret c' p. cache_get_block dev c tid pos = Some (ret, c', p) \<and>
           (\<forall>j. j \<noteq> i \<longrightarrow> entries c' j = entries (unpin_last c tid) j) \<and>
           (ret = 0 \<longrightarrow> p = Some i \<and> valid (entries c' i) \<and>
              block_n (entries c' i) = ucast (pos div CACHE_BLKSZ) \<and>
              in_use (entries c' i) \<and> owner_tid (entries c' i) = tid \<and> last_used c' = int i)"
proof -
  from miss have al: "pos mod CACHE_BLKSZ = 0" by (simp add: cache_miss_def)
  show ?thesis
    unfolding cache_get_block_def
    using al miss_find [OF miss] evict_victim [OF v]
    by (simp add: Let_def pin_entry_def EIO_def)
qed

lemma wait_unpinned_Some:
  assumes a: "wait_unpinned c i tid = Some c2"
  shows "c2 = c \<and> \<not> (in_use (entries c i) \<and> owner_tid (entries c i) \<noteq> tid)"
proof (rule wait_unpinned.raw_induct
    [where P = "\<lambda>c i tid c2. c2 = c \<and> \<not> (in_use (entries c i) \<and> owner_tid (entries c i) \<noteq> tid)",
      OF _ a])
  fix w :: "'a cache \<Rightarrow> nat \<Rightarrow> int \<Rightarrow> 'a cache option" and c i tid ca
  assume IH: "\<And>c i tid y. w c i tid = Some y \<Longrightarrow>
                y = c \<and> \<not> (in_use (entries c i) \<and> owner_tid (entries c i) \<noteq> tid)"
    and step: "(if in_use (entries c i) \<and> owner_tid (entries c i) \<noteq> tid
       then w (c\<lparr>entries := (entries c)(i := (entries c i)\<lparr>waiters := waiters (entries c i) + 1 - 1\<rparr>)\<rparr>) i tid
       else Some c) = Some ca"
  show "ca = c \<and> \<not> (in_use (entries c i) \<and> owner_tid (entries c i) \<noteq> tid)"
  proof (cases "in_use (entries c i) \<and> owner_tid (entries c i) \<noteq> tid")
    case True
    with step have "w (c\<lparr>entries := (entries c)(i := (entries c i)\<lparr>waiters := waiters (entries c i) + 1 - 1\<rparr>)\<rparr>) i tid = Some ca"
      by simp
    from IH [OF this] True show ?thesis by simp
  next
    case False
    with step show ?thesis by auto
  qed
qed


lemma wait_unpinned_free:
  "\<not> (in_use (entries c i) \<and> owner_tid (entries c i) \<noteq> tid) \<Longrightarrow> wait_unpinned c i tid = Some c"
  by (subst wait_unpinned.simps) auto


lemma get_block_ok_facts:
  assumes ok: "cache_get_block dev c tid pos = Some (0, c1, p)"
  shows "\<exists>i. p = Some i \<and> pos mod CACHE_BLKSZ = 0 \<and> i < CACHE_ENTRIES \<and> valid (entries c1 i) \<and>
     block_n (entries c1 i) = ucast (pos div CACHE_BLKSZ) \<and>
     (\<forall>j < i. \<not> (block_n (entries c1 j) = ucast (pos div CACHE_BLKSZ) \<and> valid (entries c1 j))) \<and>
     last_used c1 = int i \<and> in_use (entries c1 i) \<and> owner_tid (entries c1 i) = tid"
proof -
  let ?c = "unpin_last c tid"
  let ?P = "\<lambda>i. block_n (entries ?c i) = ucast (pos div CACHE_BLKSZ) \<and> valid (entries ?c i)"
  from ok have al: "pos mod CACHE_BLKSZ = 0"
    by (auto simp: cache_get_block_def EINVAL_def split: if_splits)
  show ?thesis
  proof (cases "find ?P [0..<CACHE_ENTRIES]")
    case (Some i)
    then have i: "i < CACHE_ENTRIES" "?P i" "\<forall>j < i. \<not> ?P j"
      by (auto simp: find_upt_Some)
    from ok al Some obtain c2 where w: "wait_unpinned ?c i tid = Some c2"
      and r: "c1 = pin_entry c2 i tid" "p = Some i"
      by (auto simp: cache_get_block_def Let_def split: option.splits)
    from wait_unpinned_Some [OF w] have "c2 = ?c" by simp
    with r i al show ?thesis by (auto simp: pin_entry_def)
  next
    case None
    then have miss: "cache_miss (entries ?c) pos" using al
      by (auto simp: find_upt_None cache_miss_def)
    have nomatch: "\<forall>j < CACHE_ENTRIES. \<not> ?P j" using None by (auto simp: find_upt_None)
    from ok al None have ev: "\<not> cache_evict_entry (entries ?c) < 0"
      by (auto simp: cache_get_block_def Let_def EBUSY_def split: if_splits)
    have "\<not> all_pinned (entries ?c)"
      using evict_all_pinned [of "entries ?c"] ev by auto
    from victim_exists [OF this] obtain v where v: "victim_slot (entries ?c) v" by blast
    from get_block_victim [OF miss v, of dev] ok
    have "p = Some v" "valid (entries c1 v)" "block_n (entries c1 v) = ucast (pos div CACHE_BLKSZ)"
      "in_use (entries c1 v)" "owner_tid (entries c1 v) = tid"
      "\<forall>j. j \<noteq> v \<longrightarrow> entries c1 j = entries ?c j" "last_used c1 = int v"
      by auto
    moreover have "v < CACHE_ENTRIES" by (rule victim_lt [OF v])
    ultimately show ?thesis using al nomatch by auto
  qed
qed

lemma release_clean:
  assumes "i < CACHE_ENTRIES" "valid (entries c i)"
  shows "cache_release_block c (Some i) 0 =
           c\<lparr>entries := (entries c)(i := (entries c i)\<lparr>in_use := False, owner_tid := -1\<rparr>)\<rparr>"
proof -
  have "find (\<lambda>j. valid (entries c j) \<and> j = i) [0..<CACHE_ENTRIES] = Some i"
    using assms unfolding find_upt_Some by simp
  then show ?thesis by (simp add: cache_release_block_def)
qed

lemma get_release_get:
  assumes tid: "0 \<le> tid" and ok: "cache_get_block dev c tid pos = Some (0, c1, p)"
  shows "\<exists>i c3. p = Some i \<and>
           cache_get_block dev (cache_release_block c1 p 0) tid pos = Some (0, c3, Some i) \<and>
           data (entries c3 i) = data (entries c1 i) \<and> valid (entries c3 i) \<and>
           block_n (entries c3 i) = ucast (pos div CACHE_BLKSZ)"
proof -
  from get_block_ok_facts [OF ok] obtain i where i0: "p = Some i \<and> pos mod CACHE_BLKSZ = 0 \<and>
    i < CACHE_ENTRIES \<and> valid (entries c1 i) \<and> block_n (entries c1 i) = ucast (pos div CACHE_BLKSZ) \<and>
    (\<forall>j < i. \<not> (block_n (entries c1 j) = ucast (pos div CACHE_BLKSZ) \<and> valid (entries c1 j))) \<and>
    last_used c1 = int i \<and> in_use (entries c1 i) \<and> owner_tid (entries c1 i) = tid" ..
  then have i: "p = Some i" "pos mod CACHE_BLKSZ = 0"
    "i < CACHE_ENTRIES" "valid (entries c1 i)" "block_n (entries c1 i) = ucast (pos div CACHE_BLKSZ)"
    "\<forall>j < i. \<not> (block_n (entries c1 j) = ucast (pos div CACHE_BLKSZ) \<and> valid (entries c1 j))"
    "last_used c1 = int i"
    by simp_all
  define r where "r = c1\<lparr>entries := (entries c1)(i := (entries c1 i)\<lparr>in_use := False, owner_tid := -1\<rparr>)\<rparr>"
  have rel: "cache_release_block c1 p 0 = r"
    using release_clean [OF i(3,4)] i(1) by (simp add: r_def)
  have r_i: "entries r i = (entries c1 i)\<lparr>in_use := False, owner_tid := -1\<rparr>"
    by (simp add: r_def)
  have r_j: "\<And>j. j \<noteq> i \<Longrightarrow> entries r j = entries c1 j"
    by (simp add: r_def)
  have r_lu: "last_used r = int i" by (simp add: r_def i(7))
  have un: "unpin_last r tid = r" using tid r_lu r_i by (simp add: unpin_last_def)
  have fnd: "find (\<lambda>j. block_n (entries r j) = ucast (pos div CACHE_BLKSZ) \<and> valid (entries r j))
               [0..<CACHE_ENTRIES] = Some i"
    unfolding find_upt_Some using i(3,4,5,6) r_i r_j by simp
  have w: "wait_unpinned r i tid = Some r"
    by (rule wait_unpinned_free) (simp add: r_i)
  have g: "cache_get_block dev r tid pos = Some (0, pin_entry r i tid, Some i)"
    unfolding cache_get_block_def using i(2) un fnd w by (simp add: Let_def)
  have d: "data (entries (pin_entry r i tid) i) = data (entries c1 i)"
    "valid (entries (pin_entry r i tid) i)"
    "block_n (entries (pin_entry r i tid) i) = ucast (pos div CACHE_BLKSZ)"
    using i(4,5) by (simp_all add: pin_entry_def r_i)
  show ?thesis
    apply (rule exI [of _ i])
    apply (rule exI [of _ "pin_entry r i tid"])
    using rel g d i(1) apply simp
    done
qed

lemma pinned_block_n: "i < 64 \<Longrightarrow> (of_nat i + 1 :: u32) \<noteq> 0"
proof -
  assume i: "i < 64"
  have "(of_nat i + 1 :: u32) = of_nat (Suc i)" by simp
  moreover have "(of_nat (Suc i) :: u32) \<noteq> 0"
    unfolding word_of_nat_eq_0_iff using i by (auto dest!: dvd_imp_le)
  ultimately show ?thesis by (simp add: add.commute)
qed

lemma pinned_cache_unpin: "unpin_last pinned_cache 1 = pinned_cache"
  by (simp add: unpin_last_def pinned_cache_def pinned_entry_def)

lemma pinned_cache_miss: "cache_miss (entries pinned_cache) 0"
  by (simp add: cache_miss_def pinned_cache_def pinned_entry_def CACHE_BLKSZ_def
      CACHE_ENTRIES_def pinned_block_n)

lemma pinned_cache_all: "all_pinned (entries pinned_cache)"
  by (simp add: all_pinned_def pinned_cache_def pinned_entry_def)

lemma one_unpinned_unpin: "unpin_last one_unpinned_cache 1 = one_unpinned_cache"
  by (simp add: unpin_last_def one_unpinned_cache_def pinned_cache_def pinned_entry_def)

lemma one_unpinned_miss: "cache_miss (entries one_unpinned_cache) 0"
  by (simp add: cache_miss_def one_unpinned_cache_def pinned_cache_def pinned_entry_def
      CACHE_BLKSZ_def CACHE_ENTRIES_def pinned_block_n)

lemma one_unpinned_victim: "victim_slot (entries one_unpinned_cache) 5"
  by (simp add: victim_slot_def free_slot_def lru_slot_def evictable_def one_unpinned_cache_def
      pinned_cache_def pinned_entry_def CACHE_ENTRIES_def)

lemma get_block_miss_ok:
  assumes miss: "cache_miss (entries (unpin_last c tid)) pos"
    and v: "victim_slot (entries (unpin_last c tid)) i"
    and wb: "fst (victim_writeback dev (unpin_last c tid) i) = 512"
    and rd: "fst (victim_fetch dev (unpin_last c tid) i pos) = 512"
  shows "cache_get_block dev c tid pos
           = Some (0, miss_served dev (unpin_last c tid) i tid pos, Some i)"
proof -
  from miss have al: "pos mod CACHE_BLKSZ = 0" by (simp add: cache_miss_def)
  show ?thesis
    unfolding cache_get_block_def
    using al miss_find [OF miss] evict_victim [OF v] wb rd
    by (cases "valid (entries (unpin_last c tid) i)"; cases "dirty (entries (unpin_last c tid) i)";
        simp add: Let_def pin_entry_def victim_writeback_def victim_fetch_def miss_served_def)
qed

lemma miss_unpin: "cache_miss (entries (unpin_last c tid)) pos = cache_miss (entries c) pos"
proof -
  have "valid (entries (unpin_last c tid) i) = valid (entries c i) \<and>
        block_n (entries (unpin_last c tid) i) = block_n (entries c i)" for i
    by (simp add: unpin_last_def)
  then show ?thesis by (simp add: cache_miss_def)
qed

lemma unpin_all_pinned:
  assumes "all_pinned (entries (unpin_last c tid))"
  shows "\<forall>i \<in> {0..<CACHE_ENTRIES}. entries (unpin_last c tid) i = entries c i"
proof (cases "0 \<le> last_used c \<and> owner_tid (entries c (nat (last_used c))) = tid")
  case False
  then have "unpin_last c tid = c" unfolding unpin_last_def by (rule if_not_P)
  then show ?thesis by simp
next
  case True
  then have e: "entries (unpin_last c tid) =
      (entries c)(nat (last_used c) :=
         (entries c (nat (last_used c)))\<lparr>in_use := False, owner_tid := -1\<rparr>)"
    by (simp add: unpin_last_def)
  have "\<not> in_use (entries (unpin_last c tid) (nat (last_used c)))" by (simp add: e)
  with assms have "\<not> nat (last_used c) < CACHE_ENTRIES"
    unfolding all_pinned_def ball_upt by blast
  then show ?thesis by (simp add: e)
qed

lemma aged_unpin: "unpin_last aged_cache 1 = aged_cache"
  by (simp add: unpin_last_def aged_cache_def pinned_cache_def pinned_entry_def)

lemma aged_miss: "cache_miss (entries aged_cache) 0"
  by (simp add: cache_miss_def aged_cache_def pinned_cache_def pinned_entry_def
      CACHE_BLKSZ_def CACHE_ENTRIES_def pinned_block_n)

lemma aged_victim: "victim_slot (entries aged_cache) 9"
  by (simp add: victim_slot_def free_slot_def lru_slot_def evictable_def aged_cache_def
      pinned_cache_def pinned_entry_def CACHE_ENTRIES_def)

lemma aged_transfers:
  "fst (victim_writeback ram_dev aged_cache 9) = 512"
  "fst (victim_fetch ram_dev aged_cache 9 0) = 512"
  by (simp_all add: victim_writeback_def victim_fetch_def ram_dev_def)

lemma owner_unpin:
  "unpin_last pinned_cache 7 =
     pinned_cache\<lparr>entries := pinned_entry(63 := (pinned_entry 63)\<lparr>in_use := False, owner_tid := -1\<rparr>),
                  last_used := -1\<rparr>"
  by (simp add: unpin_last_def pinned_cache_def pinned_entry_def)

lemma owner_victim: "victim_slot (entries (unpin_last pinned_cache 7)) 63"
  unfolding owner_unpin
  by (simp add: victim_slot_def free_slot_def lru_slot_def evictable_def
      pinned_cache_def pinned_entry_def CACHE_ENTRIES_def)

lemma owner_transfers:
  "fst (victim_writeback ram_dev (unpin_last pinned_cache 7) 63) = 512"
  "fst (victim_fetch ram_dev (unpin_last pinned_cache 7) 63 0) = 512"
  by (simp_all add: victim_writeback_def victim_fetch_def ram_dev_def)

lemma owner_served: "miss_served ram_dev (unpin_last pinned_cache 7) 63 7 0 = reloaded_cache"
  unfolding owner_unpin
  by (simp add: miss_served_def victim_fetch_def victim_writeback_def ram_dev_def
      pinned_cache_def pinned_entry_def reloaded_cache_def zero_disk_def CACHE_BLKSZ_def)

text \<open>
  C6, as stated, does not hold for the cache as the caller passes it. In \<open>pinned_cache\<close>
  all 64 slots are pinned and none holds block 0, yet the call of thread 7 for block 0
  returns 0 and not \<open>-EBUSY\<close>: \<^verbatim>\<open>cache_get_block\<close> first unpins the block that the previous
  call handed to the caller (slot 63), and that slot is then the victim.
\<close>

theorem C6_own_block_evicted_counterexample:
  "all_pinned (entries pinned_cache) \<and> cache_miss (entries pinned_cache) 0 \<and>
   cache_get_block ram_dev pinned_cache 7 0 = Some (0, reloaded_cache, Some 63) \<and>
   (0 :: int) \<noteq> - EBUSY"
  using get_block_miss_ok [of pinned_cache 7 0 63 ram_dev]
  by (simp add: miss_unpin pinned_cache_miss pinned_cache_all owner_victim owner_transfers
      owner_served EBUSY_def)

text \<open>
  C6, amended: which slots are pinned is taken after the call has unpinned the block handed
  out by the caller's previous call (\<open>unpin_last\<close>). On a miss (no valid slot of the cache
  holds the requested block): when all 64 slots are then pinned the call returns \<open>-EBUSY\<close>
  and every slot is as the caller passed it; otherwise a victim exists. For the victim in the
  sense of the specification (the first slot that is neither valid nor pinned, else the
  first valid unpinned slot with the smallest \<open>access_time\<close>) \<^verbatim>\<open>cache_evict_entry\<close>
  returns its index, the call returns and touches no other slot, and when the write-back of
  a dirty victim and the fetch of the block each transfer their 512 bytes, the call returns
  0 with that slot: it holds the fetched bytes under the requested block number, valid,
  clean and pinned by the caller.
\<close>

theorem C6_victim_selection:
  "cache_miss (entries c) pos \<longrightarrow>
     (all_pinned (entries (unpin_last c tid)) \<longrightarrow>
        cache_get_block dev c tid pos = Some (- EBUSY, unpin_last c tid, None) \<and>
        (\<forall>i \<in> {0..<CACHE_ENTRIES}. entries (unpin_last c tid) i = entries c i)) \<and>
     (\<not> all_pinned (entries (unpin_last c tid)) \<longrightarrow>
        (\<exists>i. victim_slot (entries (unpin_last c tid)) i)) \<and>
     (\<forall>i. victim_slot (entries (unpin_last c tid)) i \<longrightarrow>
        cache_evict_entry (entries (unpin_last c tid)) = int i \<and>
        (\<exists>ret c' p. cache_get_block dev c tid pos = Some (ret, c', p) \<and>
           (\<forall>j. j \<noteq> i \<longrightarrow> entries c' j = entries (unpin_last c tid) j) \<and>
           (ret = 0 \<longrightarrow> p = Some i \<and> valid (entries c' i) \<and>
              block_n (entries c' i) = ucast (pos div CACHE_BLKSZ) \<and>
              in_use (entries c' i) \<and> owner_tid (entries c' i) = tid \<and> last_used c' = int i)) \<and>
        (fst (victim_writeback dev (unpin_last c tid) i) = 512 \<and>
         fst (victim_fetch dev (unpin_last c tid) i pos) = 512 \<longrightarrow>
           cache_get_block dev c tid pos
             = Some (0, miss_served dev (unpin_last c tid) i tid pos, Some i)))"
proof (intro impI conjI allI)
  assume "cache_miss (entries c) pos"
  then have m: "cache_miss (entries (unpin_last c tid)) pos" by (simp add: miss_unpin)
  {
    assume p: "all_pinned (entries (unpin_last c tid))"
    from m p show "cache_get_block dev c tid pos = Some (- EBUSY, unpin_last c tid, None)"
      by (rule get_block_all_pinned)
    from p show "\<forall>i \<in> {0..<CACHE_ENTRIES}. entries (unpin_last c tid) i = entries c i"
      by (rule unpin_all_pinned)
  }
  {
    fix i assume v: "victim_slot (entries (unpin_last c tid)) i"
    from m v show "\<exists>ret c' p. cache_get_block dev c tid pos = Some (ret, c', p) \<and>
           (\<forall>j. j \<noteq> i \<longrightarrow> entries c' j = entries (unpin_last c tid) j) \<and>
           (ret = 0 \<longrightarrow> p = Some i \<and> valid (entries c' i) \<and>
              block_n (entries c' i) = ucast (pos div CACHE_BLKSZ) \<and>
              in_use (entries c' i) \<and> owner_tid (entries c' i) = tid \<and> last_used c' = int i)"
      by (rule get_block_victim)
    assume "fst (victim_writeback dev (unpin_last c tid) i) = 512 \<and>
         fst (victim_fetch dev (unpin_last c tid) i pos) = 512"
    then have "fst (victim_writeback dev (unpin_last c tid) i) = 512"
      "fst (victim_fetch dev (unpin_last c tid) i pos) = 512" by simp_all
    with m v show "cache_get_block dev c tid pos
             = Some (0, miss_served dev (unpin_last c tid) i tid pos, Some i)"
      by (rule get_block_miss_ok)
  }
next
  assume "\<not> all_pinned (entries (unpin_last c tid))"
  then show "\<exists>i. victim_slot (entries (unpin_last c tid)) i" by (rule victim_exists)
next
  fix i assume "victim_slot (entries (unpin_last c tid)) i"
  then show "cache_evict_entry (entries (unpin_last c tid)) = int i" by (rule evict_victim)
qed

theorem C6_victim_selection_witness:
  "cache_miss (entries pinned_cache) 0 \<and>
   all_pinned (entries (unpin_last pinned_cache 1)) \<and>
   cache_get_block ram_dev pinned_cache 1 0 = Some (- EBUSY, unpin_last pinned_cache 1, None) \<and>
   entries (unpin_last pinned_cache 1) 63 = entries pinned_cache 63 \<and>
   cache_miss (entries aged_cache) 0 \<and>
   victim_slot (entries (unpin_last aged_cache 1)) 9 \<and>
   cache_evict_entry (entries (unpin_last aged_cache 1)) = 9 \<and>
   fst (victim_writeback ram_dev (unpin_last aged_cache 1) 9) = 512 \<and>
   fst (victim_fetch ram_dev (unpin_last aged_cache 1) 9 0) = 512 \<and>
   cache_get_block ram_dev aged_cache 1 0
     = Some (0, miss_served ram_dev (unpin_last aged_cache 1) 9 1 0, Some 9)"
proof -
  have a: "cache_miss (entries pinned_cache) 0" "all_pinned (entries (unpin_last pinned_cache 1))"
    by (simp_all add: pinned_cache_unpin pinned_cache_miss pinned_cache_all)
  have b: "cache_miss (entries aged_cache) 0" "victim_slot (entries (unpin_last aged_cache 1)) 9"
    "fst (victim_writeback ram_dev (unpin_last aged_cache 1) 9) = 512"
    "fst (victim_fetch ram_dev (unpin_last aged_cache 1) 9 0) = 512"
    by (simp_all add: aged_unpin aged_miss aged_victim aged_transfers)
  from C6_victim_selection [of pinned_cache 0 1 ram_dev] a
  have 1: "cache_get_block ram_dev pinned_cache 1 0 = Some (- EBUSY, unpin_last pinned_cache 1, None)"
    and 2: "\<forall>i \<in> {0..<CACHE_ENTRIES}. entries (unpin_last pinned_cache 1) i = entries pinned_cache i"
    by simp_all
  from 2 have 3: "entries (unpin_last pinned_cache 1) 63 = entries pinned_cache 63"
    by (simp add: CACHE_ENTRIES_def)
  from C6_victim_selection [of aged_cache 0 1 ram_dev] b(1)
  have "\<forall>i. victim_slot (entries (unpin_last aged_cache 1)) i \<longrightarrow>
        cache_evict_entry (entries (unpin_last aged_cache 1)) = int i \<and>
        (fst (victim_writeback ram_dev (unpin_last aged_cache 1) i) = 512 \<and>
         fst (victim_fetch ram_dev (unpin_last aged_cache 1) i 0) = 512 \<longrightarrow>
           cache_get_block ram_dev aged_cache 1 0
             = Some (0, miss_served ram_dev (unpin_last aged_cache 1) i 1 0, Some i))"
    by simp
  with b(2,3,4)
  have 4: "cache_evict_entry (entries (unpin_last aged_cache 1)) = int 9"
    and 5: "cache_get_block ram_dev aged_cache 1 0
             = Some (0, miss_served ram_dev (unpin_last aged_cache 1) 9 1 0, Some 9)"
    by blast+
  from a b 1 3 4 5 show ?thesis by simp
qed

text \<open>
  C8, as stated, does not hold for every cache: when the requested block is not cached and
  every slot is pinned by other threads, the first \<^verbatim>\<open>cache_get_block\<close> of the sequence
  returns \<open>-EBUSY\<close>.
\<close>

theorem C8_first_get_block_busy_counterexample:
  "cache_get_block ram_dev pinned_cache 1 0 = Some (- EBUSY, pinned_cache, None) \<and> - EBUSY \<noteq> 0"
  using get_block_all_pinned [of pinned_cache 1 0 ram_dev]
  by (simp add: pinned_cache_unpin pinned_cache_miss pinned_cache_all EBUSY_def)

text \<open>
  C8, amended. Whenever the first \<^verbatim>\<open>cache_get_block(x)\<close> of a thread succeeds, then
  after \<^verbatim>\<open>cache_release_block(ptr, 0)\<close> a second \<^verbatim>\<open>cache_get_block(x)\<close> by the same
  thread succeeds, returns the same block pointer, and the block has the same bytes as after
  the first call; the slot is valid and carries the block number of \<open>x\<close>.
\<close>

theorem C8_get_release_get:
  "0 \<le> tid \<and> cache_get_block dev c tid pos = Some (0, c1, p) \<longrightarrow>
     (\<exists>i c3. p = Some i \<and>
        cache_get_block dev (cache_release_block c1 p 0) tid pos = Some (0, c3, Some i) \<and>
        data (entries c3 i) = data (entries c1 i) \<and> valid (entries c3 i) \<and>
        block_n (entries c3 i) = ucast (pos div CACHE_BLKSZ))"
  using get_release_get by (intro impI) (elim conjE)

theorem C8_get_release_get_witness:
  "\<exists>c1. (0::int) \<le> 1 \<and>
     cache_get_block ram_dev (create_cache zero_disk) 1 1024 = Some (0, c1, Some 0) \<and>
     (\<exists>i c3. Some 0 = Some i \<and>
        cache_get_block ram_dev (cache_release_block c1 (Some 0) 0) 1 1024 = Some (0, c3, Some i) \<and>
        data (entries c3 i) = data (entries c1 i) \<and> valid (entries c3 i) \<and>
        block_n (entries c3 i) = ucast ((1024 :: u64) div CACHE_BLKSZ))"
proof -
  have "map_option (\<lambda>(r, c, p). (r, p))
          (cache_get_block ram_dev (create_cache zero_disk) 1 1024) = Some (0, Some 0)"
    by code_simp
  then obtain c1 where c1: "cache_get_block ram_dev (create_cache zero_disk) 1 1024 = Some (0, c1, Some 0)"
    by (cases "cache_get_block ram_dev (create_cache zero_disk) 1 1024") auto
  from C8_get_release_get [of 1 ram_dev "create_cache zero_disk" 1024 c1 "Some 0"] c1
  show ?thesis by simp
qed

subsection \<open>Page tables: what a flag adjustment changes\<close>

lemma adj_flags_idem: "((x AND NOT k) OR f) AND NOT k OR f = (x AND NOT k) OR (f::u8)"
  by (rule bit_eqI) (auto simp: bit_and_iff bit_or_iff bit_not_iff)

lemma adj_flags_frame: "f AND NOT k = 0 \<Longrightarrow> ((x AND NOT k) OR f) AND NOT k = x AND NOT (k::u8)"
proof -
  assume "f AND NOT k = 0"
  then have "((x AND NOT k) OR f) AND NOT k = (x AND NOT k) AND NOT k OR 0"
    by (simp add: bit.conj_disj_distrib2)
  then show ?thesis by (simp add: ac_simps)
qed

lemma adj_flags_mask: "f AND NOT k = 0 \<Longrightarrow> ((x AND NOT k) OR f) AND k = (f::u8)"
proof -
  assume a: "f AND NOT k = 0"
  have "f = (f AND k) OR (f AND NOT k)"
    by (rule bit_eqI) (auto simp: bit_and_iff bit_or_iff bit_not_iff)
  with a have fk: "f AND k = f" by simp
  have "((x AND NOT k) OR f) AND k = ((x AND NOT k) AND k) OR (f AND k)"
    by (simp add: bit.conj_disj_distrib2)
  also have "(x AND NOT k) AND k = 0"
    by (rule bit_eqI) (auto simp: bit_and_iff bit_not_iff)
  finally show ?thesis using fk by simp
qed

lemma adjusted_idem: "adjusted f (adjusted f p) = adjusted f p"
  by (simp add: adjusted_def adj_flags_idem)

lemma ptab_adjust_eq:
  "ptab_adjust m root vpn fl =
     (if ptab_fetch m root vpn \<noteq> 0 \<and> PTE_LEAF (m (ptab_fetch m root vpn))
      then m(ptab_fetch m root vpn := adjusted (ucast fl) (m (ptab_fetch m root vpn))) else m)"
  by (simp add: ptab_adjust_def adjusted_def Let_def)

lemma walk_valid:
  "ptab_walk lvl m pg vpn = a \<Longrightarrow> a \<noteq> 0 \<Longrightarrow> PTE_VALID (m a)"
proof (induction lvl arbitrary: pg)
  case 0
  then show ?case by (auto simp: Let_def split: if_splits)
next
  case (Suc i)
  let ?c = "pg + 8 * ucast (PT_INDEX (Suc i) vpn)"
  from Suc.prems have v: "PTE_VALID (m ?c)" by (auto simp: Let_def split: if_splits)
  show ?case
  proof (cases "PTE_LEAF (m ?c)")
    case True
    with Suc.prems v have "a = ?c" by (simp add: Let_def)
    with v show ?thesis by simp
  next
    case False
    with Suc.prems v have "ptab_walk i m (pte_child (m ?c)) vpn = a" by (simp add: Let_def)
    from Suc.IH [OF this Suc.prems(2)] show ?thesis .
  qed
qed

lemma fetch_valid: "ptab_fetch m root vpn \<noteq> 0 \<Longrightarrow> PTE_VALID (m (ptab_fetch m root vpn))"
  by (rule walk_valid [of ROOT_LEVEL m root vpn]) (simp_all add: ptab_fetch_def)

lemma adjust_inv:
  assumes "adjusted_from (ucast fl) m0 m"
  shows "adjusted_from (ucast fl) m0 (ptab_adjust m root vpn fl)"
  unfolding adjusted_from_def
proof
  fix a
  let ?b = "ptab_fetch m root vpn"
  from assms have I: "m a = m0 a \<or>
      (PTE_VALID (m0 a) \<and> PTE_LEAF (m0 a) \<and> m a = adjusted (ucast fl) (m0 a))"
    by (simp add: adjusted_from_def)
  show "ptab_adjust m root vpn fl a = m0 a \<or>
        (PTE_VALID (m0 a) \<and> PTE_LEAF (m0 a) \<and>
         ptab_adjust m root vpn fl a = adjusted (ucast fl) (m0 a))"
  proof (cases "?b \<noteq> 0 \<and> PTE_LEAF (m ?b) \<and> a = ?b")
    case True
    then have w: "ptab_adjust m root vpn fl a = adjusted (ucast fl) (m a)"
      by (simp add: ptab_adjust_eq)
    from True have v: "PTE_VALID (m a)" using fetch_valid [of m root vpn] by simp
    from I show ?thesis
    proof
      assume "m a = m0 a"
      with True w v show ?thesis by simp
    next
      assume "PTE_VALID (m0 a) \<and> PTE_LEAF (m0 a) \<and> m a = adjusted (ucast fl) (m0 a)"
      with w show ?thesis by (simp add: adjusted_idem)
    qed
  next
    case False
    then have "ptab_adjust m root vpn fl a = m a" by (auto simp: ptab_adjust_eq)
    with I show ?thesis by simp
  qed
qed

lemma adjust_keeps:
  assumes "m a = adjusted (ucast fl) (m0 a)"
  shows "ptab_adjust m root vpn fl a = adjusted (ucast fl) (m0 a)"
proof (cases "ptab_fetch m root vpn \<noteq> 0 \<and> PTE_LEAF (m (ptab_fetch m root vpn)) \<and>
              a = ptab_fetch m root vpn")
  case True
  then have "ptab_adjust m root vpn fl a = adjusted (ucast fl) (m a)"
    by (simp add: ptab_adjust_eq)
  with assms show ?thesis by (simp add: adjusted_idem)
next
  case False
  then have "ptab_adjust m root vpn fl a = m a" by (auto simp: ptab_adjust_eq)
  with assms show ?thesis by simp
qed

lemma walk_stable:
  assumes I: "adjusted_from f m0 m"
  shows "ptab_walk lvl m0 pg vpn = a \<Longrightarrow> a \<noteq> 0 \<Longrightarrow> PTE_LEAF (m0 a) \<Longrightarrow>
         m a = adjusted f (m0 a) \<or> (ptab_walk lvl m pg vpn = a \<and> m a = m0 a)"
proof (induction lvl arbitrary: pg)
  case 0
  let ?c = "pg + 8 * ucast (PT_INDEX 0 vpn)"
  from 0 have v: "PTE_VALID (m0 ?c)" and a: "a = ?c"
    by (auto simp: Let_def split: if_splits)
  from I have "m ?c = m0 ?c \<or>
      (PTE_VALID (m0 ?c) \<and> PTE_LEAF (m0 ?c) \<and> m ?c = adjusted f (m0 ?c))"
    by (simp add: adjusted_from_def)
  then show ?case
  proof
    assume "m ?c = m0 ?c"
    with v a show ?thesis by (simp add: Let_def)
  next
    assume "PTE_VALID (m0 ?c) \<and> PTE_LEAF (m0 ?c) \<and> m ?c = adjusted f (m0 ?c)"
    with a show ?thesis by simp
  qed
next
  case (Suc i)
  let ?c = "pg + 8 * ucast (PT_INDEX (Suc i) vpn)"
  from Suc.prems have v: "PTE_VALID (m0 ?c)"
    by (auto simp: Let_def split: if_splits)
  from I have Ic: "m ?c = m0 ?c \<or>
      (PTE_VALID (m0 ?c) \<and> PTE_LEAF (m0 ?c) \<and> m ?c = adjusted f (m0 ?c))"
    by (simp add: adjusted_from_def)
  show ?case
  proof (cases "PTE_LEAF (m0 ?c)")
    case True
    with Suc.prems v have a: "a = ?c" by (simp add: Let_def)
    from Ic show ?thesis
    proof
      assume "m ?c = m0 ?c"
      with v a True show ?thesis by (simp add: Let_def)
    next
      assume "PTE_VALID (m0 ?c) \<and> PTE_LEAF (m0 ?c) \<and> m ?c = adjusted f (m0 ?c)"
      with a show ?thesis by simp
    qed
  next
    case False
    with Ic have same: "m ?c = m0 ?c" by simp
    from Suc.prems v False have "ptab_walk i m0 (pte_child (m0 ?c)) vpn = a"
      by (simp add: Let_def)
    from Suc.IH [OF this Suc.prems(2,3)] same v False show ?thesis
      by (simp add: Let_def)
  qed
qed

lemma adjust_establishes:
  assumes I: "adjusted_from (ucast fl) m0 m"
    and a: "ptab_fetch m0 root vpn \<noteq> 0" "PTE_LEAF (m0 (ptab_fetch m0 root vpn))"
  shows "ptab_adjust m root vpn fl (ptab_fetch m0 root vpn) =
           adjusted (ucast fl) (m0 (ptab_fetch m0 root vpn))"
proof -
  let ?a = "ptab_fetch m0 root vpn"
  from walk_stable [OF I, of ROOT_LEVEL root vpn ?a] a
  have "m ?a = adjusted (ucast fl) (m0 ?a) \<or> (ptab_fetch m root vpn = ?a \<and> m ?a = m0 ?a)"
    by (simp add: ptab_fetch_def)
  then show ?thesis
  proof
    assume "m ?a = adjusted (ucast fl) (m0 ?a)"
    then show ?thesis by (rule adjust_keeps)
  next
    assume "ptab_fetch m root vpn = ?a \<and> m ?a = m0 ?a"
    with a show ?thesis by (simp add: ptab_adjust_eq)
  qed
qed

lemma range_loop:
  fixes fl :: u32
  defines "loop \<equiv> \<lambda>root v0 k m0. fold (\<lambda>i m. ptab_adjust m root (v0 + of_nat i) fl) [0..<k] m0"
  shows "adjusted_from (ucast fl) m0 (loop root v0 k m0) \<and>
         (\<forall>i < k. ptab_fetch m0 root (v0 + of_nat i) \<noteq> 0 \<and>
                   PTE_LEAF (m0 (ptab_fetch m0 root (v0 + of_nat i))) \<longrightarrow>
            loop root v0 k m0 (ptab_fetch m0 root (v0 + of_nat i)) =
              adjusted (ucast fl) (m0 (ptab_fetch m0 root (v0 + of_nat i))))"
proof (induction k)
  case 0
  show ?case by (simp add: loop_def adjusted_from_def)
next
  case (Suc k)
  have step: "loop root v0 (Suc k) m0 =
                ptab_adjust (loop root v0 k m0) root (v0 + of_nat k) fl"
    by (simp add: loop_def)
  from Suc have I: "adjusted_from (ucast fl) m0 (loop root v0 k m0)" by simp
  show ?case
  proof (intro conjI allI impI)
    show "adjusted_from (ucast fl) m0 (loop root v0 (Suc k) m0)"
      unfolding step by (rule adjust_inv [OF I])
  next
    fix i
    assume i: "i < Suc k"
      and a: "ptab_fetch m0 root (v0 + of_nat i) \<noteq> 0 \<and>
              PTE_LEAF (m0 (ptab_fetch m0 root (v0 + of_nat i)))"
    show "loop root v0 (Suc k) m0 (ptab_fetch m0 root (v0 + of_nat i)) =
              adjusted (ucast fl) (m0 (ptab_fetch m0 root (v0 + of_nat i)))"
    proof (cases "i = k")
      case True
      with a show ?thesis unfolding step using adjust_establishes [OF I] by simp
    next
      case False
      with i have "i < k" by simp
      with Suc a have "loop root v0 k m0 (ptab_fetch m0 root (v0 + of_nat i)) =
              adjusted (ucast fl) (m0 (ptab_fetch m0 root (v0 + of_nat i)))" by simp
      then show ?thesis unfolding step by (rule adjust_keeps)
    qed
  qed
qed


lemma adjusted_from_fields:
  assumes "adjusted_from f m0 m"
  shows "pte_rsw (m a) = pte_rsw (m0 a)" "pte_ppn (m a) = pte_ppn (m0 a)"
    "pte_reserved (m a) = pte_reserved (m0 a)" "pte_pbmt (m a) = pte_pbmt (m0 a)"
    "pte_n (m a) = pte_n (m0 a)"
    "pte_flags (m a) = pte_flags (m0 a) \<or> pte_flags (m a) = (pte_flags (m0 a) AND NOT RWXUG) OR f"
    "f AND NOT RWXUG = 0 \<Longrightarrow> pte_flags (m a) AND NOT RWXUG = pte_flags (m0 a) AND NOT RWXUG"
    "\<not> (PTE_VALID (m0 a) \<and> PTE_LEAF (m0 a)) \<Longrightarrow> m a = m0 a"
proof -
  from assms have "m a = m0 a \<or> (PTE_VALID (m0 a) \<and> PTE_LEAF (m0 a) \<and> m a = adjusted f (m0 a))"
    by (simp add: adjusted_from_def)
  then show "pte_rsw (m a) = pte_rsw (m0 a)" "pte_ppn (m a) = pte_ppn (m0 a)"
    "pte_reserved (m a) = pte_reserved (m0 a)" "pte_pbmt (m a) = pte_pbmt (m0 a)"
    "pte_n (m a) = pte_n (m0 a)"
    "pte_flags (m a) = pte_flags (m0 a) \<or> pte_flags (m a) = (pte_flags (m0 a) AND NOT RWXUG) OR f"
    "f AND NOT RWXUG = 0 \<Longrightarrow> pte_flags (m a) AND NOT RWXUG = pte_flags (m0 a) AND NOT RWXUG"
    "\<not> (PTE_VALID (m0 a) \<and> PTE_LEAF (m0 a)) \<Longrightarrow> m a = m0 a"
    by (auto simp: adjusted_def adj_flags_frame)
qed

lemma set_range_flags_Inr:
  assumes "set_range_flags st vp sz fl = Inr st'"
  shows "satp st' = satp st \<and>
         (sz = 0 \<and> st' = st \<or>
          sz \<noteq> 0 \<and> vp AND (PAGE_SIZE - 1) = 0 \<and> vp \<le> vp + (sz - 1) \<and>
          ptmem st' =
           fold (\<lambda>i m. ptab_adjust m (active_space_ptab st) (VPN vp + of_nat i) fl)
                [0..<unat (range_num_pages sz)] (ptmem st))"
  using assms by (auto simp: set_range_flags_def Let_def split: if_splits)

text \<open>The pages of the byte range \<open>[vp, vp + sz - 1]\<close> are the first
  \<open>range_num_pages sz\<close> pages from the page of \<open>vp\<close>, as long as rounding \<open>sz\<close> up to whole
  pages does not wrap.\<close>

lemma div_in_range:
  fixes q d n s :: nat
  assumes "0 < n" "d < s"
  shows "(q * n + d) div n = q + d div n" "d div n < (s + (n - 1)) div n"
proof -
  show "(q * n + d) div n = q + d div n" using assms(1) by simp
  have "d div n \<le> (s - 1) div n" using assms(2) by (intro div_le_mono) simp
  also have "(s - 1) div n < (s - 1 + n) div n"
    using div_add_self2 [of n "s - 1"] assms(1) by simp
  also have "s - 1 + n = s + (n - 1)" using assms by simp
  finally show "d div n < (s + (n - 1)) div n" .
qed

lemma page_size: "PAGE_SIZE = 4096" "unat PAGE_SIZE = 4096"
  by (simp_all add: PAGE_SIZE_def PAGE_ORDER_def)

lemma page_of_range:
  fixes vp sz va :: u64
  assumes al: "vp AND (PAGE_SIZE - 1) = 0"
    and nz: "sz \<noteq> 0" and nw: "unat sz + unat PAGE_SIZE \<le> 2 ^ 64"
    and ord: "vp \<le> vp + (sz - 1)"
    and lo: "vp \<le> va" and hi: "va \<le> vp + (sz - 1)"
  shows "\<exists>i < unat (range_num_pages sz). VPN va = VPN vp + of_nat i"
proof -
  have s1: "unat (sz - 1) = unat sz - 1" using nz by (simp add: unat_minus_one)
  have s0: "0 < unat sz" using nz by (simp add: unat_gt_0)
  have e: "unat (vp + (sz - 1)) = unat vp + (unat sz - 1)"
    using ord by (simp add: no_olen_add_nat unat_add_lem [THEN iffD1] s1)
  define d where "d = unat va - unat vp"
  have va: "unat va = unat vp + d" using lo by (simp add: d_def word_le_nat_alt)
  have d: "d < unat sz" using hi s0 by (simp add: word_le_nat_alt e va)
  have "(4095 :: u64) = mask 12" by (simp add: mask_eq_exp_minus_1)
  then have "vp AND (PAGE_SIZE - 1) = take_bit 12 vp"
    by (simp add: page_size take_bit_eq_mask)
  also have "\<dots> = vp mod 4096" by (simp add: take_bit_eq_mod)
  finally have "vp mod 4096 = 0" using al by simp
  then have "unat (vp mod 4096) = 0" by simp
  then have m0: "unat vp mod 4096 = 0" by (simp add: unat_mod)
  define q where "q = unat vp div 4096"
  have vq: "unat vp = q * 4096"
    using m0 div_mult_mod_eq [of "unat vp" 4096] by (simp add: q_def)
  have vpn_vp: "unat (VPN vp) = q" by (simp add: VPN_def page_size unat_div vq)
  have "unat (VPN va) = (q * 4096 + d) div 4096" by (simp add: VPN_def page_size unat_div va vq)
  also have "\<dots> = q + d div 4096" by (rule div_in_range(1) [OF _ d]) simp
  finally have vpn_va: "unat (VPN va) = q + d div 4096" .
  have "VPN va = of_nat (unat (VPN va))" by simp
  also have "\<dots> = of_nat q + of_nat (d div 4096)" by (simp only: vpn_va of_nat_add)
  also have "of_nat q = VPN vp" by (simp add: vpn_vp [symmetric])
  finally have eq: "VPN va = VPN vp + of_nat (d div 4096)" .
  have "unat sz + 4095 < 2 ^ 64" using nw by (simp add: page_size)
  then have "unat (sz + 4095) = unat sz + 4095"
    by (simp add: unat_add_lem [THEN iffD1])
  then have "unat (4095 + sz) = unat sz + 4095" by (simp add: add.commute)
  then have "unat (range_num_pages sz) = (unat sz + 4095) div 4096"
    by (simp add: range_num_pages_def page_size PAGE_ORDER_def unat_drop_bit_eq drop_bit_eq_div
        unat_div)
  moreover have "d div 4096 < (unat sz + (4096 - 1)) div 4096"
    by (rule div_in_range(2) [OF _ d]) simp
  ultimately have "d div 4096 < unat (range_num_pages sz)" by simp
  with eq show ?thesis by blast
qed

lemma ex_root: "active_space_ptab example_mspace = 0x80010000"
  by (simp add: active_space_ptab_def mtag_to_ptab_def example_mspace_def)

lemma ex_mem: "ptmem example_mspace = example_tables"
  by (simp add: example_mspace_def)

lemma ex_adj_mem: "ptmem adjusted_example =
    example_tables(0x80012000 := (example_tables 0x80012000)\<lparr>pte_flags := 0xD3\<rparr>)"
  by (simp add: adjusted_example_def)

lemma ex_fetch: "ptab_fetch example_tables 0x80010000 0xC0000 = 0x80012000"
  by code_simp

lemma ex_leaf: "example_tables 0x80012000 = no_pte\<lparr>pte_flags := 0xF7, pte_ppn := 0x80200\<rparr>"
  by (simp add: example_tables_def)

lemma ex_pages: "unat (range_num_pages 4096) = 1" "VPN 0xC0000000 = 0xC0000"
  by (simp_all add: range_num_pages_def PAGE_SIZE_def PAGE_ORDER_def VPN_def)

lemma ex_checks: "(0xC0000000 :: u64) AND (PAGE_SIZE - 1) = 0" "wellformed 0xC0000000"
  "wellformed (0xC0000000 + (4096 - 1))"
  by (simp_all add: PAGE_SIZE_def PAGE_ORDER_def wellformed_def Let_def)

lemma ex_adjust:
  "ptab_adjust example_tables 0x80010000 0xC0000 0x12 =
     example_tables(0x80012000 := (example_tables 0x80012000)\<lparr>pte_flags := 0xD3\<rparr>)"
  by (simp add: ptab_adjust_def ex_fetch Let_def ex_leaf PTE_LEAF_def RWXUG_def
      PTE_R_def PTE_W_def PTE_X_def PTE_U_def PTE_G_def)

lemma ex_run: "set_range_flags example_mspace 0xC0000000 4096 0x12 = Inr adjusted_example"
  using ex_checks
  by (simp add: set_range_flags_def Let_def ex_pages ex_root ex_mem adjusted_example_def ex_adjust)

lemma ex_whole_checks: "(0 :: u64) AND (PAGE_SIZE - 1) = 0" "wellformed 0"
  "wellformed (0 + (0xFFFFFFFFFFFFFFFF - 1))" "unat (range_num_pages 0xFFFFFFFFFFFFFFFF) = 0"
  by (simp_all add: PAGE_SIZE_def PAGE_ORDER_def wellformed_def Let_def range_num_pages_def)

lemma ex_whole_run:
  "set_range_flags example_mspace 0 0xFFFFFFFFFFFFFFFF 0x12 = Inr example_mspace"
  using ex_whole_checks by (simp add: set_range_flags_def Let_def)

lemma fresh_root: "active_space_ptab fresh_mspace = 0x80010000"
  by (simp add: active_space_ptab_def mtag_to_ptab_def fresh_mspace_def)

lemma fresh_mem: "ptmem fresh_mspace = fresh_tables"
  by (simp add: fresh_mspace_def)

lemma fresh_fetch: "ptab_fetch fresh_tables 0x80010000 0xC0000 = 0x80012000"
  by code_simp

lemma fresh_leaf: "fresh_tables 0x80012000 = no_pte\<lparr>pte_flags := 0x17, pte_ppn := 0x80200\<rparr>"
  by (simp add: fresh_tables_def)

lemma fresh_adjust:
  "ptab_adjust fresh_tables 0x80010000 0xC0000 0xC2 =
     fresh_tables(0x80012000 := (fresh_tables 0x80012000)\<lparr>pte_flags := 0xC3\<rparr>)"
  by (simp add: ptab_adjust_def fresh_fetch Let_def fresh_leaf PTE_LEAF_def RWXUG_def
      PTE_R_def PTE_W_def PTE_X_def PTE_U_def PTE_G_def)

lemma fresh_run: "set_range_flags fresh_mspace 0xC0000000 4096 0xC2 = Inr adjusted_fresh"
  using ex_checks
  by (simp add: set_range_flags_def Let_def ex_pages fresh_root fresh_mem adjusted_fresh_def
      fresh_adjust)

text \<open>
  C5, as stated, does not hold. It asks for the G bit to be preserved and to be overwritten
  at once; the code overwrites it: a global leaf adjusted with a mask without G is no longer
  global. Two more inputs show what the statement has to say about the mask and the range.
  The mask is ORed into the flags as a whole byte, so a mask with the bits A and D sets them
  in a leaf that had them clear. And the number of pages is \<open>(size + PAGE_SIZE - 1) >> 12\<close>
  in 64 bits: for the range of \<open>2^64 - 1\<close> bytes from address 0 every assertion holds, the
  count wraps to 0, and the mapped leaf of the page at \<open>0xC0000000\<close> keeps its flags.
\<close>

theorem C5_global_bit_counterexample:
  "set_range_flags example_mspace 0xC0000000 4096 0x12 = Inr adjusted_example \<and>
   ptab_fetch (ptmem example_mspace) (active_space_ptab example_mspace) (VPN 0xC0000000) = 0x80012000 \<and>
   PTE_LEAF (ptmem example_mspace 0x80012000) \<and>
   PTE_GLOBAL (ptmem example_mspace 0x80012000) \<and>
   \<not> PTE_GLOBAL (ptmem adjusted_example 0x80012000) \<and>
   set_range_flags fresh_mspace 0xC0000000 4096 0xC2 = Inr adjusted_fresh \<and>
   page_entry fresh_mspace 0xC0000000 = 0x80012000 \<and>
   leaf_mapped fresh_mspace 0xC0000000 \<and>
   pte_flags (ptmem fresh_mspace 0x80012000) AND (PTE_A OR PTE_D) = 0 \<and>
   pte_flags (ptmem adjusted_fresh 0x80012000) AND (PTE_A OR PTE_D) = PTE_A OR PTE_D \<and>
   set_range_flags example_mspace 0 0xFFFFFFFFFFFFFFFF 0x12 = Inr example_mspace \<and>
   (0 :: u64) \<le> 0xC0000000 \<and> (0xC0000000 :: u64) \<le> 0 + (0xFFFFFFFFFFFFFFFF - 1) \<and>
   leaf_mapped example_mspace 0xC0000000 \<and>
   pte_flags (ptmem example_mspace (page_entry example_mspace 0xC0000000)) AND RWXUG = 0x36"
  using ex_run ex_fetch fresh_run fresh_fetch ex_whole_run
  by (simp add: ex_root ex_pages ex_mem ex_adj_mem ex_leaf fresh_root fresh_mem fresh_leaf
      adjusted_fresh_def page_entry_def leaf_mapped_def RWXUG_def
      PTE_GLOBAL_def PTE_LEAF_def PTE_G_def PTE_R_def PTE_W_def PTE_X_def PTE_U_def
      PTE_A_def PTE_D_def)

text \<open>
  C5, amended. A completed \<^verbatim>\<open>set_range_flags\<close> leaves \<^verbatim>\<open>satp\<close> alone, and in every
  page-table entry the PPN and the fields other than the flags are as before; the flags are
  as before or they are the old flags with \<open>R, W, X, U, G\<close> cleared and the low byte of the
  mask ORed in, so that for a mask within \<open>R|W|X|U|G\<close> the bits \<open>A, D, V\<close> of every entry
  are as before. An entry that was not a valid leaf (unmapped, or a pointer to the next
  table) is unchanged. When rounding the size up to whole pages does not wrap, every page
  that holds an address of the range \<open>[vp, vp + sz - 1]\<close> and had a leaf mapping has its
  flags rewritten in that way: for a mask within \<open>R|W|X|U|G\<close> its \<open>R, W, X, U, G\<close> bits,
  the bit \<open>G\<close> among them, are those of the mask.
\<close>

theorem C5_set_range_flags:
  "set_range_flags st vp sz fl = Inr st' \<longrightarrow>
     satp st' = satp st \<and>
     (\<forall>a. pte_rsw (ptmem st' a) = pte_rsw (ptmem st a) \<and>
          pte_ppn (ptmem st' a) = pte_ppn (ptmem st a) \<and>
          pte_reserved (ptmem st' a) = pte_reserved (ptmem st a) \<and>
          pte_pbmt (ptmem st' a) = pte_pbmt (ptmem st a) \<and>
          pte_n (ptmem st' a) = pte_n (ptmem st a) \<and>
          (pte_flags (ptmem st' a) = pte_flags (ptmem st a) \<or>
           pte_flags (ptmem st' a) = (pte_flags (ptmem st a) AND NOT RWXUG) OR ucast fl) \<and>
          ((ucast fl :: u8) AND NOT RWXUG = 0 \<longrightarrow>
             pte_flags (ptmem st' a) AND NOT RWXUG = pte_flags (ptmem st a) AND NOT RWXUG) \<and>
          (\<not> (PTE_VALID (ptmem st a) \<and> PTE_LEAF (ptmem st a)) \<longrightarrow> ptmem st' a = ptmem st a)) \<and>
     (\<forall>va. sz \<noteq> 0 \<and> unat sz + unat PAGE_SIZE \<le> 2 ^ 64 \<and>
           vp \<le> va \<and> va \<le> vp + (sz - 1) \<and> leaf_mapped st va \<longrightarrow>
           pte_flags (ptmem st' (page_entry st va))
             = (pte_flags (ptmem st (page_entry st va)) AND NOT RWXUG) OR ucast fl \<and>
           ((ucast fl :: u8) AND NOT RWXUG = 0 \<longrightarrow>
              pte_flags (ptmem st' (page_entry st va)) AND RWXUG = ucast fl))"
proof (intro impI)
  assume r: "set_range_flags st vp sz fl = Inr st'"
  let ?root = "active_space_ptab st"
  let ?loop = "fold (\<lambda>i m. ptab_adjust m ?root (VPN vp + of_nat i) fl)
                [0..<unat (range_num_pages sz)] (ptmem st)"
  from set_range_flags_Inr [OF r] have s: "satp st' = satp st"
    and c: "sz = 0 \<and> st' = st \<or>
            sz \<noteq> 0 \<and> vp AND (PAGE_SIZE - 1) = 0 \<and> vp \<le> vp + (sz - 1) \<and> ptmem st' = ?loop"
    by simp_all
  have L: "adjusted_from (ucast fl) (ptmem st) ?loop \<and>
         (\<forall>i < unat (range_num_pages sz). ptab_fetch (ptmem st) ?root (VPN vp + of_nat i) \<noteq> 0 \<and>
                   PTE_LEAF (ptmem st (ptab_fetch (ptmem st) ?root (VPN vp + of_nat i))) \<longrightarrow>
            ?loop (ptab_fetch (ptmem st) ?root (VPN vp + of_nat i)) =
              adjusted (ucast fl) (ptmem st (ptab_fetch (ptmem st) ?root (VPN vp + of_nat i))))"
    by (rule range_loop)
  have I: "adjusted_from (ucast fl) (ptmem st) (ptmem st')"
  proof (cases "sz = 0")
    case True
    with c show ?thesis by (simp add: adjusted_from_def)
  next
    case False
    with c L show ?thesis by simp
  qed
  have R: "ptmem st' (page_entry st va) = adjusted (ucast fl) (ptmem st (page_entry st va))"
    if nz: "sz \<noteq> 0" and nw: "unat sz + unat PAGE_SIZE \<le> 2 ^ 64"
      and lo: "vp \<le> va" and hi: "va \<le> vp + (sz - 1)" and lf: "leaf_mapped st va" for va
  proof -
    from nz c have al: "vp AND (PAGE_SIZE - 1) = 0" and ord: "vp \<le> vp + (sz - 1)"
      and m: "ptmem st' = ?loop" by simp_all
    from page_of_range [OF al nz nw ord lo hi]
    obtain i where i: "i < unat (range_num_pages sz)" and v: "VPN va = VPN vp + of_nat i"
      by blast
    from lf have "ptab_fetch (ptmem st) ?root (VPN vp + of_nat i) \<noteq> 0 \<and>
        PTE_LEAF (ptmem st (ptab_fetch (ptmem st) ?root (VPN vp + of_nat i)))"
      by (simp add: leaf_mapped_def page_entry_def v)
    with L i have "?loop (ptab_fetch (ptmem st) ?root (VPN vp + of_nat i)) =
        adjusted (ucast fl) (ptmem st (ptab_fetch (ptmem st) ?root (VPN vp + of_nat i)))"
      by blast
    then show ?thesis by (simp add: m page_entry_def v)
  qed
  show "satp st' = satp st \<and>
     (\<forall>a. pte_rsw (ptmem st' a) = pte_rsw (ptmem st a) \<and>
          pte_ppn (ptmem st' a) = pte_ppn (ptmem st a) \<and>
          pte_reserved (ptmem st' a) = pte_reserved (ptmem st a) \<and>
          pte_pbmt (ptmem st' a) = pte_pbmt (ptmem st a) \<and>
          pte_n (ptmem st' a) = pte_n (ptmem st a) \<and>
          (pte_flags (ptmem st' a) = pte_flags (ptmem st a) \<or>
           pte_flags (ptmem st' a) = (pte_flags (ptmem st a) AND NOT RWXUG) OR ucast fl) \<and>
          ((ucast fl :: u8) AND NOT RWXUG = 0 \<longrightarrow>
             pte_flags (ptmem st' a) AND NOT RWXUG = pte_flags (ptmem st a) AND NOT RWXUG) \<and>
          (\<not> (PTE_VALID (ptmem st a) \<and> PTE_LEAF (ptmem st a)) \<longrightarrow> ptmem st' a = ptmem st a)) \<and>
     (\<forall>va. sz \<noteq> 0 \<and> unat sz + unat PAGE_SIZE \<le> 2 ^ 64 \<and>
           vp \<le> va \<and> va \<le> vp + (sz - 1) \<and> leaf_mapped st va \<longrightarrow>
           pte_flags (ptmem st' (page_entry st va))
             = (pte_flags (ptmem st (page_entry st va)) AND NOT RWXUG) OR ucast fl \<and>
           ((ucast fl :: u8) AND NOT RWXUG = 0 \<longrightarrow>
              pte_flags (ptmem st' (page_entry st va)) AND RWXUG = ucast fl))"
  proof (intro conjI allI impI; (elim conjE)?)
    fix va
    assume "sz \<noteq> 0" "unat sz + unat PAGE_SIZE \<le> 2 ^ 64" "vp \<le> va" "va \<le> vp + (sz - 1)"
      "leaf_mapped st va"
    then have "ptmem st' (page_entry st va) = adjusted (ucast fl) (ptmem st (page_entry st va))"
      by (rule R)
    then show "pte_flags (ptmem st' (page_entry st va))
             = (pte_flags (ptmem st (page_entry st va)) AND NOT RWXUG) OR ucast fl"
      by (simp add: adjusted_def)
  next
    fix va
    assume "sz \<noteq> 0" "unat sz + unat PAGE_SIZE \<le> 2 ^ 64" "vp \<le> va" "va \<le> vp + (sz - 1)"
      "leaf_mapped st va"
    then have "ptmem st' (page_entry st va) = adjusted (ucast fl) (ptmem st (page_entry st va))"
      by (rule R)
    moreover assume "(ucast fl :: u8) AND NOT RWXUG = 0"
    ultimately show "pte_flags (ptmem st' (page_entry st va)) AND RWXUG = ucast fl"
      by (simp add: adjusted_def adj_flags_mask)
  next
    fix a
    show "pte_flags (ptmem st' a) = pte_flags (ptmem st a) \<or>
           pte_flags (ptmem st' a) = (pte_flags (ptmem st a) AND NOT RWXUG) OR ucast fl"
      by (rule adjusted_from_fields(6) [OF I])
  next
    fix a
    assume "\<not> (PTE_VALID (ptmem st a) \<and> PTE_LEAF (ptmem st a))"
    then show "ptmem st' a = ptmem st a" by (rule adjusted_from_fields(8) [OF I])
  qed (use s adjusted_from_fields [OF I] in simp_all)
qed

theorem C5_set_range_flags_witness:
  "set_range_flags example_mspace 0xC0000000 4096 0x12 = Inr adjusted_example \<and>
   (ucast (0x12 :: u32) :: u8) AND NOT RWXUG = 0 \<and>
   (4096 :: u64) \<noteq> 0 \<and> unat (4096 :: u64) + unat PAGE_SIZE \<le> 2 ^ 64 \<and>
   (0xC0000000 :: u64) \<le> 0xC0000123 \<and> (0xC0000123 :: u64) \<le> 0xC0000000 + (4096 - 1) \<and>
   leaf_mapped example_mspace 0xC0000123 \<and>
   page_entry example_mspace 0xC0000123 = 0x80012000 \<and>
   pte_flags (ptmem adjusted_example 0x80012000) AND RWXUG = 0x12 \<and>
   pte_flags (ptmem adjusted_example 0x80012000) AND NOT RWXUG =
     pte_flags (ptmem example_mspace 0x80012000) AND NOT RWXUG \<and>
   pte_ppn (ptmem adjusted_example 0x80012000) = pte_ppn (ptmem example_mspace 0x80012000) \<and>
   \<not> (PTE_VALID (ptmem example_mspace 0x80010018) \<and> PTE_LEAF (ptmem example_mspace 0x80010018)) \<and>
   ptmem adjusted_example 0x80010018 = ptmem example_mspace 0x80010018"
proof -
  have m: "(ucast (0x12 :: u32) :: u8) AND NOT RWXUG = 0"
    by (simp add: RWXUG_def PTE_R_def PTE_W_def PTE_X_def PTE_U_def PTE_G_def)
  have nl: "\<not> (PTE_VALID (ptmem example_mspace 0x80010018) \<and>
                PTE_LEAF (ptmem example_mspace 0x80010018))"
    by (simp add: ex_mem example_tables_def PTE_LEAF_def PTE_R_def PTE_W_def PTE_X_def)
  have vpn: "VPN 0xC0000123 = 0xC0000" by (simp add: VPN_def page_size)
  have f: "page_entry example_mspace 0xC0000123 = 0x80012000"
    by (simp add: page_entry_def vpn ex_root ex_mem ex_fetch)
  have lf: "leaf_mapped example_mspace 0xC0000123"
    by (simp add: leaf_mapped_def f ex_mem ex_leaf PTE_LEAF_def PTE_R_def PTE_W_def PTE_X_def)
  have rg: "(4096 :: u64) \<noteq> 0" "unat (4096 :: u64) + unat PAGE_SIZE \<le> 2 ^ 64"
    "(0xC0000000 :: u64) \<le> 0xC0000123" "(0xC0000123 :: u64) \<le> 0xC0000000 + (4096 - 1)"
    by (simp_all add: page_size)
  from C5_set_range_flags [of example_mspace "0xC0000000" 4096 "0x12" adjusted_example] ex_run
  have all: "\<forall>a. pte_rsw (ptmem adjusted_example a) = pte_rsw (ptmem example_mspace a) \<and>
          pte_ppn (ptmem adjusted_example a) = pte_ppn (ptmem example_mspace a) \<and>
          pte_reserved (ptmem adjusted_example a) = pte_reserved (ptmem example_mspace a) \<and>
          pte_pbmt (ptmem adjusted_example a) = pte_pbmt (ptmem example_mspace a) \<and>
          pte_n (ptmem adjusted_example a) = pte_n (ptmem example_mspace a) \<and>
          (pte_flags (ptmem adjusted_example a) = pte_flags (ptmem example_mspace a) \<or>
           pte_flags (ptmem adjusted_example a)
             = (pte_flags (ptmem example_mspace a) AND NOT RWXUG) OR ucast (0x12 :: u32)) \<and>
          ((ucast (0x12 :: u32) :: u8) AND NOT RWXUG = 0 \<longrightarrow>
             pte_flags (ptmem adjusted_example a) AND NOT RWXUG
               = pte_flags (ptmem example_mspace a) AND NOT RWXUG) \<and>
          (\<not> (PTE_VALID (ptmem example_mspace a) \<and> PTE_LEAF (ptmem example_mspace a)) \<longrightarrow>
             ptmem adjusted_example a = ptmem example_mspace a)"
    and rng: "\<forall>va. (4096 :: u64) \<noteq> 0 \<and> unat (4096 :: u64) + unat PAGE_SIZE \<le> 2 ^ 64 \<and>
           0xC0000000 \<le> va \<and> va \<le> 0xC0000000 + (4096 - 1) \<and> leaf_mapped example_mspace va \<longrightarrow>
           pte_flags (ptmem adjusted_example (page_entry example_mspace va))
             = (pte_flags (ptmem example_mspace (page_entry example_mspace va)) AND NOT RWXUG)
                 OR ucast (0x12 :: u32) \<and>
           ((ucast (0x12 :: u32) :: u8) AND NOT RWXUG = 0 \<longrightarrow>
              pte_flags (ptmem adjusted_example (page_entry example_mspace va)) AND RWXUG
                = ucast (0x12 :: u32))"
    by blast+
  from rng rg lf m
  have "pte_flags (ptmem adjusted_example (page_entry example_mspace 0xC0000123)) AND RWXUG
          = ucast (0x12 :: u32)"
    by blast
  then have g: "pte_flags (ptmem adjusted_example 0x80012000) AND RWXUG = 0x12"
    unfolding f by simp
  from all nl have u: "ptmem adjusted_example 0x80010018 = ptmem example_mspace 0x80010018"
    by blast
  from all m have k: "pte_flags (ptmem adjusted_example 0x80012000) AND NOT RWXUG =
     pte_flags (ptmem example_mspace 0x80012000) AND NOT RWXUG"
    by blast
  from all have pp: "pte_ppn (ptmem adjusted_example 0x80012000)
      = pte_ppn (ptmem example_mspace 0x80012000)"
    by blast
  from ex_run m rg lf f g k pp nl u show ?thesis by blast
qed

subsection \<open>Recursive locks: count and owner\<close>

lemma wait_released_Some:
  assumes a: "wait_released s lock = Some s1"
  shows "s1 = s \<and> lk_owner s lock = None"
proof (rule wait_released.raw_induct
    [where P = "\<lambda>s lock s1. s1 = s \<and> lk_owner s lock = None", OF _ a])
  fix w :: "'a word lock_store \<Rightarrow> nat \<Rightarrow> 'a word lock_store option" and s lock s1
  assume IH: "\<And>s lock y. w s lock = Some y \<Longrightarrow> y = s \<and> lk_owner s lock = None"
    and step: "(if lk_owner s lock \<noteq> None then w s lock else Some s) = Some s1"
  show "s1 = s \<and> lk_owner s lock = None"
  proof (cases "lk_owner s lock = None")
    case True
    with step show ?thesis by simp
  next
    case False
    with step have "w s lock = Some s1" by simp
    from IH [OF this] show ?thesis .
  qed
qed

lemma wait_released_free: "lk_owner s lock = None \<Longrightarrow> wait_released s lock = Some s"
  by (subst wait_released.simps) simp

lemma lock_init_ok: "lock_ok (lock_init lock s) lock"
  by (simp add: lock_ok_def lock_init_def)

lemma lock_init_others: "k \<noteq> lock \<Longrightarrow> lock_ok (lock_init lock s) k = lock_ok s k"
  by (simp add: lock_ok_def lock_init_def)

lemma lock_acquire_ok:
  assumes inv: "locks_ok s" and nomax: "lk_cnt s lock \<noteq> - 1"
    and acq: "lock_acquire tp lock s = Some s'"
  shows "locks_ok s'"
proof (cases "lk_owner s lock = Some tp")
  case True
  with acq have s': "s' = s\<lparr>lk_cnt := (lk_cnt s)(lock := lk_cnt s lock + 1)\<rparr>"
    by (simp add: lock_acquire_def)
  have "lk_cnt s lock + 1 \<noteq> 0" using nomax
    by (metis add.commute add_eq_0_iff)
  with inv True show ?thesis unfolding s' locks_ok_def lock_ok_def by simp
next
  case False
  with acq obtain s1 where w: "wait_released s lock = Some s1"
    and s': "s' = s1\<lparr>lk_owner := (lk_owner s1)(lock := Some tp),
                      lk_cnt := (lk_cnt s1)(lock := 1),
                      lk_next := (lk_next s1)(lock := thr_lock_list s1 tp),
                      thr_lock_list := (thr_lock_list s1)(tp := Some lock)\<rparr>"
    by (auto simp: lock_acquire_def split: option.splits)
  from wait_released_Some [OF w] have "s1 = s" by simp
  with inv show ?thesis unfolding s' locks_ok_def lock_ok_def by simp
qed

lemma assign_fields: "lk_owner (assign s h v) = lk_owner s" "lk_cnt (assign s h v) = lk_cnt s"
  by (simp_all add: assign_def split: link.splits)

lemma lock_release_completely_ok:
  assumes inv: "\<forall>k. k \<noteq> lock \<longrightarrow> lock_ok s k" and z: "lk_cnt s lock = 0"
    and rel: "lock_release_completely tp lock s = Some (Inr s')"
  shows "locks_ok s'"
proof -
  from rel obtain hptr k where
    s': "s' = (assign s hptr (lk_next s k))\<lparr>lk_owner := (lk_owner (assign s hptr (lk_next s k)))(lock := None),
              lk_next := (lk_next (assign s hptr (lk_next s k)))(lock := None)\<rparr>"
    by (auto simp: lock_release_completely_def Let_def split: option.splits)
  show ?thesis unfolding locks_ok_def
  proof
    fix j show "lock_ok s' j"
      using inv z unfolding s' lock_ok_def by (cases "j = lock") (simp_all add: assign_fields)
  qed
qed

lemma lock_release_ok:
  assumes inv: "locks_ok s" and rel: "lock_release tp lock s = Some (Inr s')"
  shows "locks_ok s'"
proof -
  from rel have own: "lk_owner s lock = Some tp" and nz: "lk_cnt s lock \<noteq> 0"
    by (auto simp: lock_release_def split: if_splits)
  define s1 where "s1 = s\<lparr>lk_cnt := (lk_cnt s)(lock := lk_cnt s lock - 1)\<rparr>"
  show ?thesis
  proof (cases "lk_cnt s lock - 1 = 0")
    case True
    with rel own nz have r: "lock_release_completely tp lock s1 = Some (Inr s')"
      by (simp add: lock_release_def s1_def Let_def)
    have "\<forall>k. k \<noteq> lock \<longrightarrow> lock_ok s1 k" using inv by (simp add: locks_ok_def lock_ok_def s1_def)
    moreover have "lk_cnt s1 lock = 0" using True by (simp add: s1_def)
    ultimately show ?thesis using lock_release_completely_ok r by blast
  next
    case False
    with rel own nz have "s' = s1" by (simp add: lock_release_def s1_def Let_def)
    with inv own False show ?thesis by (simp add: locks_ok_def lock_ok_def s1_def)
  qed
qed

lemma find_link_here: "deref s hptr = Some lock \<Longrightarrow> find_link s lock hptr = Some hptr"
  by (subst find_link.simps) simp

text \<open>
  C9, as stated, fails when the recursion count overflows: a thread that holds a lock at the
  largest count and acquires it once more leaves \<^verbatim>\<open>cnt == 0\<close> with a non-nil owner
  (shown for a 32-bit count).
\<close>

theorem C9_count_wraps_counterexample:
  "locks_ok deep_lock \<and>
   lock_acquire 1 3 deep_lock = Some (deep_lock\<lparr>lk_cnt := (lk_cnt deep_lock)(3 := 0)\<rparr>) \<and>
   \<not> locks_ok (deep_lock\<lparr>lk_cnt := (lk_cnt deep_lock)(3 := 0)\<rparr>)"
proof -
  have 1: "locks_ok deep_lock" by (simp add: locks_ok_def lock_ok_def deep_lock_def)
  have c: "lk_cnt deep_lock 3 + 1 = 0" by (simp add: deep_lock_def)
  have o: "lk_owner deep_lock 3 = Some 1" by (simp add: deep_lock_def)
  have 2: "lock_acquire 1 3 deep_lock = Some (deep_lock\<lparr>lk_cnt := (lk_cnt deep_lock)(3 := 0)\<rparr>)"
    by (simp add: lock_acquire_def o c)
  have "\<not> lock_ok (deep_lock\<lparr>lk_cnt := (lk_cnt deep_lock)(3 := 0)\<rparr>) 3"
    by (simp add: lock_ok_def deep_lock_def)
  then have 3: "\<not> locks_ok (deep_lock\<lparr>lk_cnt := (lk_cnt deep_lock)(3 := 0)\<rparr>)"
    unfolding locks_ok_def by blast
  from 1 2 3 show ?thesis by simp
qed

text \<open>
  C9, amended. \<^verbatim>\<open>lock_init\<close> establishes "count is 0 if and only if the owner is nil"
  for its lock; every completed \<^verbatim>\<open>lock_release\<close> preserves it for all locks, and so
  does every completed \<^verbatim>\<open>lock_acquire\<close> of a lock whose count is not at its largest
  value. Under the invariant a lock with a non-zero count has an owner.
\<close>

theorem C9_lock_invariant:
  "((\<forall>k. k \<noteq> lock \<longrightarrow> lock_ok s k) \<longrightarrow> locks_ok (lock_init lock s)) \<and>
   (locks_ok s \<and> lk_cnt s lock \<noteq> - 1 \<and> lock_acquire tp lock s = Some s' \<longrightarrow> locks_ok s') \<and>
   (locks_ok s \<and> lock_release tp lock s = Some (Inr s') \<longrightarrow> locks_ok s') \<and>
   (locks_ok s \<and> lk_cnt s lock \<noteq> 0 \<longrightarrow> lk_owner s lock \<noteq> None)"
proof (intro conjI impI)
  assume "\<forall>k. k \<noteq> lock \<longrightarrow> lock_ok s k"
  then show "locks_ok (lock_init lock s)"
    unfolding locks_ok_def using lock_init_ok lock_init_others by metis
next
  assume "locks_ok s \<and> lk_cnt s lock \<noteq> - 1 \<and> lock_acquire tp lock s = Some s'"
  then show "locks_ok s'" using lock_acquire_ok by blast
next
  assume "locks_ok s \<and> lock_release tp lock s = Some (Inr s')"
  then show "locks_ok s'" using lock_release_ok by blast
next
  assume "locks_ok s \<and> lk_cnt s lock \<noteq> 0"
  then show "lk_owner s lock \<noteq> None" by (auto simp: locks_ok_def lock_ok_def)
qed

theorem C9_lock_invariant_witness:
  "locks_ok no_locks \<and> lk_cnt no_locks 3 \<noteq> - 1 \<and>
   (\<exists>s1. lock_acquire 2 3 no_locks = Some s1 \<and> locks_ok s1 \<and> lk_cnt s1 3 = 1 \<and>
      (\<exists>s2. lock_release 2 3 s1 = Some (Inr s2) \<and> locks_ok s2 \<and> lk_owner s2 3 = None))"
proof -
  define s1 where "s1 = no_locks\<lparr>lk_owner := (lk_owner no_locks)(3 := Some 2),
                      lk_cnt := (lk_cnt no_locks)(3 := 1),
                      lk_next := (lk_next no_locks)(3 := thr_lock_list no_locks 2),
                      thr_lock_list := (thr_lock_list no_locks)(2 := Some 3)\<rparr>"
  have ok0: "locks_ok no_locks" by (simp add: locks_ok_def lock_ok_def no_locks_def)
  have nm: "lk_cnt no_locks 3 \<noteq> - 1" by (simp add: no_locks_def)
  have a: "lock_acquire 2 3 no_locks = Some s1"
    by (simp add: lock_acquire_def wait_released_free no_locks_def s1_def)
  from C9_lock_invariant [of 3 no_locks 2 s1] ok0 nm a have ok1: "locks_ok s1" by blast
  have c1: "lk_cnt s1 3 = 1" and own: "lk_owner s1 3 = Some 2" by (simp_all add: s1_def)
  define sd where "sd = s1\<lparr>lk_cnt := (lk_cnt s1)(3 := lk_cnt s1 3 - 1)\<rparr>"
  have r1: "lock_release 2 3 s1 = lock_release_completely 2 3 sd"
    by (simp add: lock_release_def Let_def own c1 sd_def)
  have d: "deref sd (Head 2) = Some 3" by (simp add: deref_def sd_def s1_def)
  have fl: "find_link sd 3 (Head 2) = Some (Head 2)" by (rule find_link_here [OF d])
  define s2 where "s2 = (assign sd (Head 2) (lk_next sd 3))\<lparr>
      lk_owner := (lk_owner (assign sd (Head 2) (lk_next sd 3)))(3 := None),
      lk_next := (lk_next (assign sd (Head 2) (lk_next sd 3)))(3 := None)\<rparr>"
  have r: "lock_release 2 3 s1 = Some (Inr s2)"
    unfolding r1 by (simp add: lock_release_completely_def fl d Let_def s2_def)
  from C9_lock_invariant [of 3 s1 2 s2] ok1 r have ok2: "locks_ok s2" by blast
  have o2: "lk_owner s2 3 = None" by (simp add: s2_def)
  from ok0 nm a ok1 c1 r ok2 o2 show ?thesis by blast
qed

subsection \<open>KTFS: reading, writing and resizing a file\<close>

lemma vol_super: "ktfs_read_super example_disk = Inr example_super"
  by code_simp


lemma vol_hello: "ktfs_inode_grab example_disk 1 example_super = Inr hello_inode"
  by code_simp
































lemma store_at_or_past_max:
  assumes "len \<noteq> 0"
    and "ktfs_read_super dev = Inr sb"
    and "ktfs_inode_grab dev (ucast (f_inode_number kuio)) sb = Inr ino"
    and "KTFS_MAX_FILE_SIZE \<le> f_position kuio"
  shows "ktfs_store dev kuio (Some b) len = Inr (- EINVAL, kuio, dev)"
  using assms by (simp add: ktfs_store_def)

text \<open>
  C3: a write of 3 bytes through a handle positioned exactly at \<^verbatim>\<open>KTFS_MAX_FILE_SIZE\<close>.
  The test \<^verbatim>\<open>pos >= KTFS_MAX_FILE_SIZE\<close> answers \<open>-EINVAL\<close>; the later branch that returns
  0 when the clamped length is 0 is never reached.
\<close>

theorem C3_store_at_max_file_size:
  "f_position hello_uio_at_max = KTFS_MAX_FILE_SIZE \<and>
   ktfs_store example_disk hello_uio_at_max (Some [1, 2, 3]) 3
     = Inr (- EINVAL, hello_uio_at_max, example_disk)"
proof -
  have p: "f_position hello_uio_at_max = KTFS_MAX_FILE_SIZE"
    by (simp add: hello_uio_at_max_def)
  have n: "ucast (f_inode_number hello_uio_at_max) = (1 :: u32)"
    by (simp add: hello_uio_at_max_def hello_uio_def)
  have "ktfs_store example_disk hello_uio_at_max (Some [1, 2, 3]) 3
          = Inr (- EINVAL, hello_uio_at_max, example_disk)"
    by (rule store_at_or_past_max [OF _ vol_super]) (simp_all add: n vol_hello p)
  with p show ?thesis by simp
qed











section \<open>Theorems\<close>

subsection \<open>C1: unhandled page faults from U mode\<close>

lemmas scause_defs =
  RISCV_SCAUSE_INSTR_ADDR_MISALIGNED_def RISCV_SCAUSE_INSTR_ACCESS_FAULT_def
  RISCV_SCAUSE_ILLEGAL_INSTR_def RISCV_SCAUSE_BREAKPOINT_def
  RISCV_SCAUSE_LOAD_ADDR_MISALIGNED_def RISCV_SCAUSE_LOAD_ACCESS_FAULT_def
  RISCV_SCAUSE_STORE_ADDR_MISALIGNED_def RISCV_SCAUSE_STORE_ACCESS_FAULT_def
  RISCV_SCAUSE_ECALL_FROM_UMODE_def RISCV_SCAUSE_ECALL_FROM_SMODE_def
  RISCV_SCAUSE_INSTR_PAGE_FAULT_def RISCV_SCAUSE_LOAD_PAGE_FAULT_def
  RISCV_SCAUSE_STORE_PAGE_FAULT_def

text \<open>
  C1. The claim is that a U-mode page fault (instruction, load or store) for which
  \<^verbatim>\<open>handle_umode_page_fault\<close> returns 0 ends in the log-and-\<^verbatim>\<open>process_exit\<close> path.
  The code tests \<^verbatim>\<open>if (y == 0) return;\<close>: on the value 0, which memory.c documents as
  "fatal, the process should be terminated", the handler returns to the faulting
  instruction instead. This theorem evaluates the code at the three page-fault causes.
\<close>

theorem C1_page_fault_returns_to_user:
  "handle_umode_page_fault tfr va = 0 \<and>
   handle_umode_exception RISCV_SCAUSE_LOAD_PAGE_FAULT tfr va = Returned_To_User \<and>
   handle_umode_exception RISCV_SCAUSE_STORE_PAGE_FAULT tfr va = Returned_To_User \<and>
   handle_umode_exception RISCV_SCAUSE_INSTR_PAGE_FAULT tfr va = Returned_To_User"
  by (simp add: handle_umode_exception_def handle_umode_page_fault_def scause_defs)

subsection \<open>C7: smallest-fit allocation of physical pages\<close>

lemma best_inv_step:
  assumes "best_inv n pre best"
  shows "best_inv n (pre @ [c])
           (if n \<le> pagecnt c \<and> (case best of None \<Rightarrow> True | Some (j, b) \<Rightarrow> pagecnt c < pagecnt b)
            then Some (length pre, c) else best)"
proof (cases best)
  case None
  with assms show ?thesis
    by (auto simp: best_inv_def smallest_fit_def nth_append less_Suc_eq)
next
  case (Some p)
  obtain j b where p: "p = (j, b)" by (cases p)
  from assms Some p have sf: "smallest_fit n pre j" and b: "b = pre ! j"
    by (auto simp: best_inv_def)
  show ?thesis
  proof (cases "n \<le> pagecnt c \<and> pagecnt c < pagecnt b")
    case True
    with sf b show ?thesis unfolding Some p
      by (auto simp: best_inv_def smallest_fit_def nth_append less_Suc_eq)
  next
    case False
    with sf b show ?thesis unfolding Some p
      by (auto simp: best_inv_def smallest_fit_def nth_append less_Suc_eq)
  qed
qed

lemma scan_best_inv:
  "best_inv n pre best \<Longrightarrow> best_inv n (pre @ cs) (scan_best n cs (length pre) best)"
proof (induction cs arbitrary: pre best)
  case Nil
  then show ?case by simp
next
  case (Cons c cs)
  from best_inv_step [OF Cons.prems, of c]
  have "best_inv n ((pre @ [c]) @ cs)
          (scan_best n cs (length (pre @ [c]))
            (if n \<le> pagecnt c \<and> (case best of None \<Rightarrow> True | Some (j, b) \<Rightarrow> pagecnt c < pagecnt b)
             then Some (length pre, c) else best))"
    by (rule Cons.IH)
  then show ?case by simp
qed

lemma scan_best_whole: "best_inv n fl (scan_best n fl 0 None)"
  using scan_best_inv [of n "[]" None fl] by (simp add: best_inv_def)

lemma smallest_fit_unique: "smallest_fit n fl i \<Longrightarrow> smallest_fit n fl k \<Longrightarrow> i = k"
  unfolding smallest_fit_def
  by (metis linorder_neqE_nat not_less)

lemma push_bit_12_mono:
  fixes a b :: u64
  assumes "a \<le> b" "b < 2 ^ 52"
  shows "push_bit 12 a \<le> push_bit 12 b"
proof -
  have ub: "unat b < 2 ^ 52" using assms(2) by (simp add: word_less_nat_alt)
  have ua: "unat a \<le> unat b" using assms(1) by (simp add: word_le_nat_alt)
  have "unat (push_bit 12 a) = unat a * 4096" using ua ub
    by (simp add: push_bit_eq_mult unat_word_ariths)
  moreover have "unat (push_bit 12 b) = unat b * 4096" using ub
    by (simp add: push_bit_eq_mult unat_word_ariths)
  ultimately show ?thesis using ua by (simp add: word_le_nat_alt)
qed

lemma alloc_zero: "alloc_phys_pages 0 fl = Inr (0, fl)"
  by (simp add: alloc_phys_pages_def)

lemma alloc_no_fit:
  assumes nz: "cnt \<noteq> 0" and none: "\<forall>j < length fl. pagecnt (fl ! j) < ucast cnt"
  shows "\<exists>m. alloc_phys_pages cnt fl = Inl (Panic m)"
proof -
  have "scan_best (ucast cnt) fl 0 None = None"
  proof (cases "scan_best (ucast cnt) fl 0 None")
    case (Some p)
    with scan_best_whole [of "ucast cnt" fl] none show ?thesis
      by (auto simp: best_inv_def smallest_fit_def)
  qed simp
  then show ?thesis using nz by (simp add: alloc_phys_pages_def)
qed

lemma smallest_fit_exists:
  assumes some: "\<exists>j < length fl. n \<le> pagecnt (fl ! j)"
  shows "\<exists>i. smallest_fit n fl i"
proof (cases "scan_best n fl 0 None")
  case None
  with scan_best_whole [of n fl] some show ?thesis
    by (auto simp: best_inv_def)
next
  case (Some p)
  with scan_best_whole [of n fl] show ?thesis
    by (auto simp: best_inv_def)
qed

lemma alloc_smallest_fit:
  assumes nz: "cnt \<noteq> 0" and sf: "smallest_fit (ucast cnt) fl i"
    and small: "pagecnt (fl ! i) < 2 ^ 52"
  shows "alloc_phys_pages cnt fl =
       (if pagecnt (fl ! i) = ucast cnt
        then Inr (chunk_addr (fl ! i), take i fl @ drop (Suc i) fl)
        else Inr (chunk_addr (fl ! i) + push_bit 12 (pagecnt (fl ! i) - ucast cnt),
                  fl[i := (fl ! i)\<lparr>pagecnt := pagecnt (fl ! i) - ucast cnt\<rparr>]))"
proof -
  from sf have ne: "fl \<noteq> []" and fit: "ucast cnt \<le> pagecnt (fl ! i)"
    by (auto simp: smallest_fit_def)
  have sb: "scan_best (ucast cnt) fl 0 None = Some (i, fl ! i)"
  proof (cases "scan_best (ucast cnt) fl 0 None")
    case None
    with scan_best_whole [of "ucast cnt" fl] sf show ?thesis
      by (auto simp: best_inv_def smallest_fit_def)
  next
    case (Some p)
    with scan_best_whole [of "ucast cnt" fl] smallest_fit_unique [OF sf] show ?thesis
      by (auto simp: best_inv_def)
  qed
  have le: "push_bit 12 (ucast cnt :: u64) \<le> push_bit 12 (pagecnt (fl ! i))"
    by (rule push_bit_12_mono [OF fit small])
  have sub: "push_bit 12 (pagecnt (fl ! i)) - push_bit 12 (ucast cnt :: u64)
             = push_bit 12 (pagecnt (fl ! i) - ucast cnt)"
    by (simp add: push_bit_eq_mult algebra_simps)
  show ?thesis
    using nz ne sb le sub by (simp add: alloc_phys_pages_def PAGE_ORDER_def Let_def)
qed

text \<open>
  C7. \<^verbatim>\<open>alloc_phys_pages(0)\<close> returns nil and leaves the list alone. For \<open>cnt \<ge> 1\<close>:
  when no chunk has \<open>cnt\<close> pages the call panics; when one has, a smallest fit exists, and
  the call takes it: on an exact fit it returns the chunk's address and unlinks the chunk,
  otherwise it returns the address of the last \<open>cnt\<close> pages of the chunk and lowers the
  chunk's \<open>pagecnt\<close> by \<open>cnt\<close> in place. Chunks are smaller than \<open>2^52\<close> pages, so that
  the byte size \<^verbatim>\<open>pagecnt << PAGE_ORDER\<close> fits the 64-bit \<^verbatim>\<open>uintptr_t\<close>.
\<close>

theorem C7_alloc_phys_pages:
  "alloc_phys_pages 0 fl = Inr (0, fl) \<and>
   (cnt \<noteq> 0 \<longrightarrow>
      ((\<forall>j < length fl. pagecnt (fl ! j) < ucast cnt) \<longrightarrow>
         (\<exists>m. alloc_phys_pages cnt fl = Inl (Panic m))) \<and>
      ((\<exists>j < length fl. ucast cnt \<le> pagecnt (fl ! j)) \<longrightarrow>
         (\<exists>i. smallest_fit (ucast cnt) fl i)) \<and>
      (\<forall>i. smallest_fit (ucast cnt) fl i \<and> pagecnt (fl ! i) < 2 ^ 52 \<longrightarrow>
         alloc_phys_pages cnt fl =
           (if pagecnt (fl ! i) = ucast cnt
            then Inr (chunk_addr (fl ! i), take i fl @ drop (Suc i) fl)
            else Inr (chunk_addr (fl ! i) + push_bit 12 (pagecnt (fl ! i) - ucast cnt),
                      fl[i := (fl ! i)\<lparr>pagecnt := pagecnt (fl ! i) - ucast cnt\<rparr>]))))"
  using alloc_zero alloc_no_fit smallest_fit_exists alloc_smallest_fit by blast

theorem C7_alloc_phys_pages_witness:
  "smallest_fit 3
     [\<lparr>chunk_addr = 0x80100000, pagecnt = 8\<rparr>, \<lparr>chunk_addr = 0x80200000, pagecnt = 4\<rparr>,
      \<lparr>chunk_addr = 0x80300000, pagecnt = 4\<rparr>] 1 \<and>
   alloc_phys_pages 3
     [\<lparr>chunk_addr = 0x80100000, pagecnt = 8\<rparr>, \<lparr>chunk_addr = 0x80200000, pagecnt = 4\<rparr>,
      \<lparr>chunk_addr = 0x80300000, pagecnt = 4\<rparr>]
   = Inr (0x80201000,
     [\<lparr>chunk_addr = 0x80100000, pagecnt = 8\<rparr>, \<lparr>chunk_addr = 0x80200000, pagecnt = 1\<rparr>,
      \<lparr>chunk_addr = 0x80300000, pagecnt = 4\<rparr>]) \<and>
   alloc_phys_pages 4
     [\<lparr>chunk_addr = 0x80100000, pagecnt = 8\<rparr>, \<lparr>chunk_addr = 0x80200000, pagecnt = 4\<rparr>,
      \<lparr>chunk_addr = 0x80300000, pagecnt = 4\<rparr>]
   = Inr (0x80200000,
     [\<lparr>chunk_addr = 0x80100000, pagecnt = 8\<rparr>, \<lparr>chunk_addr = 0x80300000, pagecnt = 4\<rparr>]) \<and>
   (\<exists>m. alloc_phys_pages 9
     [\<lparr>chunk_addr = 0x80100000, pagecnt = 8\<rparr>, \<lparr>chunk_addr = 0x80200000, pagecnt = 4\<rparr>,
      \<lparr>chunk_addr = 0x80300000, pagecnt = 4\<rparr>] = Inl (Panic m))"
proof -
  let ?fl = "[\<lparr>chunk_addr = 0x80100000, pagecnt = 8\<rparr>, \<lparr>chunk_addr = 0x80200000, pagecnt = 4\<rparr>,
      \<lparr>chunk_addr = 0x80300000, pagecnt = 4 :: u64\<rparr>]"
  have sf3: "smallest_fit (ucast (3 :: u32)) ?fl 1 \<and> pagecnt (?fl ! 1) < 2 ^ 52"
    by (simp add: smallest_fit_def less_Suc_eq nth_Cons')
  have sf4: "smallest_fit (ucast (4 :: u32)) ?fl 1 \<and> pagecnt (?fl ! 1) < 2 ^ 52"
    by (simp add: smallest_fit_def less_Suc_eq nth_Cons')
  have none9: "\<forall>j < length ?fl. pagecnt (?fl ! j) < ucast (9 :: u32)"
    by (simp add: less_Suc_eq nth_Cons')
  have a3: "alloc_phys_pages 3 ?fl = Inr (0x80201000, ?fl[1 := (?fl ! 1)\<lparr>pagecnt := 1\<rparr>])"
  proof -
    have "(3::u32) \<noteq> 0" by simp
    with C7_alloc_phys_pages [of ?fl 3] sf3
    have "alloc_phys_pages 3 ?fl =
           (if pagecnt (?fl ! 1) = ucast (3::u32)
            then Inr (chunk_addr (?fl ! 1), take 1 ?fl @ drop (Suc 1) ?fl)
            else Inr (chunk_addr (?fl ! 1) + push_bit 12 (pagecnt (?fl ! 1) - ucast (3::u32)),
                      ?fl[1 := (?fl ! 1)\<lparr>pagecnt := pagecnt (?fl ! 1) - ucast (3::u32)\<rparr>]))"
      by blast
    then show ?thesis by simp
  qed
  have a4: "alloc_phys_pages 4 ?fl = Inr (0x80200000, take 1 ?fl @ drop 2 ?fl)"
  proof -
    have "(4::u32) \<noteq> 0" by simp
    with C7_alloc_phys_pages [of ?fl 4] sf4
    have "alloc_phys_pages 4 ?fl =
           (if pagecnt (?fl ! 1) = ucast (4::u32)
            then Inr (chunk_addr (?fl ! 1), take 1 ?fl @ drop (Suc 1) ?fl)
            else Inr (chunk_addr (?fl ! 1) + push_bit 12 (pagecnt (?fl ! 1) - ucast (4::u32)),
                      ?fl[1 := (?fl ! 1)\<lparr>pagecnt := pagecnt (?fl ! 1) - ucast (4::u32)\<rparr>]))"
      by blast
    then show ?thesis by simp
  qed
  have a9: "\<exists>m. alloc_phys_pages 9 ?fl = Inl (Panic m)"
    using C7_alloc_phys_pages [of ?fl 9] none9 by simp
  from sf3 a3 a4 a9 show ?thesis by simp
qed

end
